theory Spec2Isabelle
  imports Complex_Main "HOL-Library.AList" "HOL-Library.Multiset"
begin

section \<open>Results and counted loops\<close>

text \<open>
  The C++ code works on raw arrays. An access outside an allocated array is undefined
  behaviour there; the model makes it the result \<open>Inl OutOfBounds\<close>. The only exception
  the code throws itself is the string thrown by \<open>SmiNodeData::addQuadraticObjective\<close>
  (\<open>Thrown s\<close>); a failed \<open>assert\<close> of that function is \<open>AssertionFailed\<close>. All counters,
  sizes, indices and stage labels are C \<open>int\<close>s that the code uses as array subscripts;
  they are modelled as natural numbers (the stage labels a caller passes to the
  constructor are integers in \<open>gutsOfConstructor_int\<close>). Element values
  (\<open>double\<close>) are only ever copied, never computed with, so they are an arbitrary type
  \<open>'v\<close> with a zero (the fill value of \<open>calloc\<close> and \<open>CoinFillN(..., 0.0)\<close>).
\<close>

datatype error = OutOfBounds | Thrown string | AssertionFailed

type_synonym 'a result = "error + 'a"

definition rbind :: "'a result \<Rightarrow> ('a \<Rightarrow> 'b result) \<Rightarrow> 'b result" where
  "rbind m f = (case m of Inl e \<Rightarrow> Inl e | Inr x \<Rightarrow> f x)"

text \<open>\<open>for (i = 0; i < n; i++) body\<close>, stopping at the first failure of the body.\<close>

primrec for_loop :: "nat \<Rightarrow> (nat \<Rightarrow> 's \<Rightarrow> 's result) \<Rightarrow> 's \<Rightarrow> 's result" where
  "for_loop 0 body s = Inr s"
| "for_loop (Suc n) body s = rbind (for_loop n body s) (body n)"

section \<open>CoinUtils containers\<close>

text \<open>
  A \<open>CoinPackedVector\<close> is its list of (index, element) pairs in storage order. A
  row-ordered \<open>CoinPackedMatrix\<close> is the list of its rows, row \<open>i\<close> being the
  \<open>getVectorLengths()[i]\<close> (index, element) pairs stored from \<open>getVectorStarts()[i]\<close> on.
\<close>

type_synonym 'v CoinPackedVector = "(nat \<times> 'v) list"
type_synonym 'v CoinPackedMatrix = "(nat \<times> 'v) list list"

text \<open>\<open>CoinPackedVector(size, elements)\<close>: full storage, indices \<open>0 .. size-1\<close>.\<close>

definition fullVector :: "nat \<Rightarrow> 'v list \<Rightarrow> 'v CoinPackedVector result" where
  "fullVector n els = (if n \<le> length els then Inr (zip [0..<n] els) else Inl OutOfBounds)"

definition getNumElements :: "'v CoinPackedMatrix \<Rightarrow> nat" where
  "getNumElements m = length (concat m)"

text \<open>
  \<open>CoinPackedVectorBase::denseVector(denseSize)\<close>: a fresh zero-filled array into which
  the entries are scattered in storage order.
\<close>

definition scatter :: "'v list \<Rightarrow> 'v CoinPackedVector \<Rightarrow> 'v list result" where
  "scatter dv cpv = for_loop (length cpv)
     (\<lambda>j d. if fst (cpv ! j) < length d then Inr (d[fst (cpv ! j) := snd (cpv ! j)])
            else Inl OutOfBounds) dv"

definition denseVector :: "nat \<Rightarrow> ('v::zero) CoinPackedVector \<Rightarrow> 'v list result" where
  "denseVector denseSize cpv = scatter (replicate denseSize 0) cpv"

text \<open>\<open>CoinPackedVector::sortIncrIndex\<close>: the pairs in increasing order of index.\<close>

definition sortIncrIndex :: "'v CoinPackedVector \<Rightarrow> 'v CoinPackedVector" where
  "sortIncrIndex cpv = sort_key fst cpv"

section \<open>The data model\<close>

text \<open>
  \<open>SmiNodeData\<close>: the arrays \<open>dels_\<close> and \<open>inds_\<close> are one list \<open>buf\<close> of (index, element)
  pairs, entry \<open>k\<close> being \<open>(inds_[k], dels_[k])\<close>; \<open>strt\<close> is \<open>strt_\<close>. The node's pointer
  to its core is passed to every operation as an argument instead.
\<close>

text \<open>
  Modelled from the spec: the classes \<open>SmiQuadraticData\<close> and \<open>SmiQuadraticDataDC\<close> are
  declared outside the sources. Quadratic data are column starts, indices and elements
  over \<open>n\<close> columns; \<open>getNumEls()\<close> is \<open>starts[n]\<close>, and the data count as present
  (\<open>hasData\<close>) when there is at least one quadratic term.
\<close>

record 'v SmiQuadraticData =
  qd_n :: nat
  qd_starts :: "nat list"
  qd_indx :: "nat list"
  qd_els :: "'v list"
  qd_hasData :: bool


record 'v SmiNodeData =
  stg :: nat
  isCoreNode :: bool
  nd_nrow :: nat
  nd_ncol :: nat
  rowbeg :: nat
  colbeg :: nat
  nels :: nat
  nstrt :: nat
  buf :: "(nat \<times> 'v) list"
  strt :: "nat list"
  has_matrix :: bool
  mat_strt :: nat
  clo_strt :: nat
  cup_strt :: nat
  obj_strt :: nat
  rlo_strt :: nat
  rup_strt :: nat
  nd_hasQdata :: bool
  nqdata :: "'v SmiQuadraticData option"
  dRowMap :: "(nat \<times> 'v list) list"

record 'v SmiCoreData =
  nrow :: nat
  ncol :: nat
  nstag :: nat
  nColInStage :: "nat list"
  nRowInStage :: "nat list"
  stageColPtr :: "nat list"
  stageRowPtr :: "nat list"
  colStage :: "nat list"
  rowStage :: "nat list"
  colEx2In :: "nat list"
  rowEx2In :: "nat list"
  colIn2Ex :: "nat list"
  rowIn2Ex :: "nat list"
  integerIndices :: "nat list"
  binaryIndices :: "nat list"
  intColsStagewise :: "int list list"
  cdrlo :: "'v list list"
  cdrup :: "'v list list"
  cdobj :: "'v list list"
  cdclo :: "'v list list"
  cdcup :: "'v list list"
  nodes :: "'v SmiNodeData list"
  hasQdata :: bool
  sqp :: "'v SmiQuadraticData option"

section \<open>Accessors of the class declarations\<close>

text \<open>
  Modelled from the spec: the header \<open>SmiScnData.hpp\<close> with the inline accessors of
  both classes is not among the sources. Each accessor reads the member the spec and
  the call sites name: \<open>getNumCols(t)\<close>/\<open>getNumRows(t)\<close> the per-stage counts,
  \<open>getColStart(t)\<close>/\<open>getRowStart(t)\<close> the stage start offsets, the four index maps and
  the two stage maps. An index outside the array is \<open>OutOfBounds\<close>.
\<close>

definition array_at :: "'a list \<Rightarrow> nat \<Rightarrow> 'a result" where
  "array_at xs i = (if i < length xs then Inr (xs ! i) else Inl OutOfBounds)"

definition getNumCols :: "'v SmiCoreData \<Rightarrow> nat \<Rightarrow> nat result" where
  "getNumCols core t = array_at (nColInStage core) t"

definition getNumRows :: "'v SmiCoreData \<Rightarrow> nat \<Rightarrow> nat result" where
  "getNumRows core t = array_at (nRowInStage core) t"

definition getColStart :: "'v SmiCoreData \<Rightarrow> nat \<Rightarrow> nat result" where
  "getColStart core t = array_at (stageColPtr core) t"

definition getRowStart :: "'v SmiCoreData \<Rightarrow> nat \<Rightarrow> nat result" where
  "getRowStart core t = array_at (stageRowPtr core) t"

definition getColStage :: "'v SmiCoreData \<Rightarrow> nat \<Rightarrow> nat result" where
  "getColStage core i = array_at (colStage core) i"

definition getRowStage :: "'v SmiCoreData \<Rightarrow> nat \<Rightarrow> nat result" where
  "getRowStage core i = array_at (rowStage core) i"

definition getColInternalIndex :: "'v SmiCoreData \<Rightarrow> nat \<Rightarrow> nat result" where
  "getColInternalIndex core i = array_at (colEx2In core) i"

definition getRowInternalIndex :: "'v SmiCoreData \<Rightarrow> nat \<Rightarrow> nat result" where
  "getRowInternalIndex core i = array_at (rowEx2In core) i"

definition getColExternalIndex :: "'v SmiCoreData \<Rightarrow> nat \<Rightarrow> nat result" where
  "getColExternalIndex core i = array_at (colIn2Ex core) i"

definition getRowExternalIndex :: "'v SmiCoreData \<Rightarrow> nat \<Rightarrow> nat result" where
  "getRowExternalIndex core i = array_at (rowIn2Ex core) i"

section \<open>SmiCoreData::gutsOfConstructor: stage partition and index maps\<close>

text \<open>\<open>for (i=0;i<n;i++) nInStage[stage[i]]++;\<close>\<close>

definition count_in_stage :: "nat \<Rightarrow> nat list \<Rightarrow> nat list \<Rightarrow> nat list result" where
  "count_in_stage n stage cnt0 = for_loop n
     (\<lambda>i cnt. if stage ! i < length cnt
               then Inr (cnt[stage ! i := Suc (cnt ! (stage ! i))])
               else Inl OutOfBounds) cnt0"

text \<open>\<open>ptr[0] = 0; for (i=0;i<nstag;i++) ptr[i+1] = ptr[i] + nInStage[i];\<close>\<close>

definition set_stage_ptrs :: "nat \<Rightarrow> nat list \<Rightarrow> nat list \<Rightarrow> nat list result" where
  "set_stage_ptrs ns cnt ptr = for_loop ns
     (\<lambda>i p. if Suc i < length p \<and> i < length cnt
             then Inr (p[Suc i := p ! i + cnt ! i])
             else Inl OutOfBounds) (ptr[0 := 0])"

text \<open>
  \<open>for (i=0;i<n;i++) { ex2in[i] = ptr[stage[i]]; in2ex[ex2in[i]] = i; ptr[stage[i]]++; }\<close>
\<close>

definition place_in_stage ::
  "nat \<Rightarrow> nat list \<Rightarrow> nat list \<times> nat list \<times> nat list \<Rightarrow> (nat list \<times> nat list \<times> nat list) result"
where
  "place_in_stage n stage st0 = for_loop n
     (\<lambda>i (ptr, ex2in, in2ex).
        if stage ! i < length ptr \<and> i < length ex2in \<and> ptr ! (stage ! i) < length in2ex
        then Inr (ptr[stage ! i := Suc (ptr ! (stage ! i))],
                  ex2in[i := ptr ! (stage ! i)],
                  in2ex[ptr ! (stage ! i) := i])
        else Inl OutOfBounds) st0"

text \<open>
  The code runs the same four loops for the rows and then for the columns: count, set
  the stage pointers, place every index into the next open position of its stage, reset
  the stage pointers. The arrays from \<open>new int[...]\<close> are uninitialised in C++; every
  entry the code reads has been written before, so they start as zeros here. The result
  is (count per stage, stage pointers, external-to-internal, internal-to-external).
\<close>

definition stage_maps ::
  "nat \<Rightarrow> nat \<Rightarrow> nat list \<Rightarrow> (nat list \<times> nat list \<times> nat list \<times> nat list) result"
where
  "stage_maps ns n stage =
     rbind (count_in_stage n stage (replicate (Suc ns) 0)) (\<lambda>cnt.
     rbind (set_stage_ptrs ns cnt (replicate (Suc ns) 0)) (\<lambda>ptr.
     rbind (place_in_stage n stage (ptr, replicate n 0, replicate n 0)) (\<lambda>(ptr', ex2in, in2ex).
     rbind (set_stage_ptrs ns cnt ptr') (\<lambda>ptr''.
     Inr (cnt, ptr'', ex2in, in2ex)))))"

section \<open>SmiNodeData: construction\<close>

text \<open>
  The matrix loop of the constructor. For each row \<open>i\<close> of the node's stage the row
  \<open>isrc = core->getRowExternalIndex(rowbeg_+i)\<close> of the matrix is copied to the end of the
  buffer (\<open>offset_dst\<close> is the length of the part written so far, \<open>cap\<close> the allocated
  \<open>nels_\<close>), then \<open>i_start\<close> is advanced and the new offset is recorded there.
  \<open>i_start\<close> never exceeds \<open>nrow_\<close>, so the write to \<open>strt_\<close> is inside its
  \<open>nrow_ + 1 + 5\<close> entries.
\<close>

definition copy_matrix_rows ::
  "'v SmiCoreData \<Rightarrow> 'v CoinPackedMatrix \<Rightarrow> nat \<Rightarrow> nat \<Rightarrow> nat \<Rightarrow>
   (nat \<times> 'v) list \<times> nat list \<times> nat \<Rightarrow> ((nat \<times> 'v) list \<times> nat list \<times> nat) result"
where
  "copy_matrix_rows core m rb nr cap st0 = for_loop nr
     (\<lambda>i (b, st, i_start).
        rbind (getRowExternalIndex core (rb + i)) (\<lambda>isrc.
        rbind (array_at m isrc) (\<lambda>row.
          if length row \<noteq> 0
          then (if length b + length row \<le> cap
                then Inr (b @ row, st[Suc i_start := length b + length row], Suc i_start)
                else Inl OutOfBounds)
          else Inr (b, st[Suc i_start := length b], Suc i_start)))) st0"

text \<open>\<open>for (j=0; j<offset_dst; j++) inds_[j] = core->getColInternalIndex(inds_[j]);\<close>\<close>

definition convert_indices :: "'v SmiCoreData \<Rightarrow> (nat \<times> 'v) list \<Rightarrow> (nat \<times> 'v) list result" where
  "convert_indices core b0 = for_loop (length b0)
     (\<lambda>j b. rbind (getColInternalIndex core (fst (b ! j))) (\<lambda>k.
             Inr (b[j := (k, snd (b ! j))]))) b0"

text \<open>
  One of the five bound and objective loops: the entries of the vector whose column (or
  row) has the node's stage are appended with their internal index. A null vector
  contributes nothing.
\<close>

definition copy_stage_entries ::
  "(nat \<Rightarrow> nat result) \<Rightarrow> (nat \<Rightarrow> nat result) \<Rightarrow> nat \<Rightarrow> nat \<Rightarrow>
   'v CoinPackedVector option \<Rightarrow> (nat \<times> 'v) list \<Rightarrow> (nat \<times> 'v) list result"
where
  "copy_stage_entries getStage getInternalIndex stage cap d b0 =
     (case d of
        None \<Rightarrow> Inr b0
      | Some cpv \<Rightarrow> for_loop (length cpv)
          (\<lambda>j b. rbind (getStage (fst (cpv ! j))) (\<lambda>s.
             if s = stage
             then (if length b < cap
                   then rbind (getInternalIndex (fst (cpv ! j))) (\<lambda>k.
                          Inr (b @ [(k, snd (cpv ! j))]))
                   else Inl OutOfBounds)
             else Inr b)) b0)"

definition numElementsOpt :: "'a list option \<Rightarrow> nat" where
  "numElementsOpt d = (case d of None \<Rightarrow> 0 | Some v \<Rightarrow> length v)"

text \<open>
  The constructor. A column-ordered matrix is first turned into its row-ordered copy by
  the library; \<open>matrix\<close> is the row-ordered matrix the loops read. The final \<open>realloc\<close>
  cuts the buffer to the \<open>offset_dst\<close> entries written, which is the list built here.
\<close>

definition SmiNodeData_ctor ::
  "nat \<Rightarrow> ('v::zero) SmiCoreData \<Rightarrow> 'v CoinPackedMatrix option \<Rightarrow>
   'v CoinPackedVector option \<Rightarrow> 'v CoinPackedVector option \<Rightarrow> 'v CoinPackedVector option \<Rightarrow>
   'v CoinPackedVector option \<Rightarrow> 'v CoinPackedVector option \<Rightarrow> 'v SmiNodeData result"
where
  "SmiNodeData_ctor stage core matrix dclo dcup dobj drlo drup =
     rbind (getNumRows core stage) (\<lambda>nr.
     rbind (getNumCols core stage) (\<lambda>nc.
     rbind (getRowStart core stage) (\<lambda>rb.
     rbind (getColStart core stage) (\<lambda>cb.
     let cap = (case matrix of None \<Rightarrow> 0 | Some m \<Rightarrow> getNumElements m)
               + numElementsOpt dclo + numElementsOpt dcup + numElementsOpt dobj
               + numElementsOpt drlo + numElementsOpt drup;
         strt0 = replicate ((nr + 1) + 5) 0;
         hasm = (case matrix of None \<Rightarrow> False | Some m \<Rightarrow> getNumElements m > 0)
     in
     rbind (case matrix of
              None \<Rightarrow> Inr ([], strt0, 0)
            | Some m \<Rightarrow>
                if getNumElements m > 0
                then rbind (copy_matrix_rows core m rb nr cap ([], strt0, 0)) (\<lambda>(b, st, i).
                     rbind (convert_indices core b) (\<lambda>b'. Inr (b', st, i)))
                else Inr ([], strt0, 0)) (\<lambda>(b0, st0, i0).
     rbind (copy_stage_entries (getColStage core) (getColInternalIndex core) stage cap dclo b0) (\<lambda>b1.
     rbind (copy_stage_entries (getColStage core) (getColInternalIndex core) stage cap dcup b1) (\<lambda>b2.
     rbind (copy_stage_entries (getColStage core) (getColInternalIndex core) stage cap dobj b2) (\<lambda>b3.
     rbind (copy_stage_entries (getRowStage core) (getRowInternalIndex core) stage cap drlo b3) (\<lambda>b4.
     rbind (copy_stage_entries (getRowStage core) (getRowInternalIndex core) stage cap drup b4) (\<lambda>b5.
     Inr \<lparr> stg = stage, isCoreNode = False, nd_nrow = nr, nd_ncol = nc,
           rowbeg = rb, colbeg = cb, nels = cap, nstrt = (nr + 1) + 5,
           buf = b5,
           strt = st0[i0 + 1 := length b1, i0 + 2 := length b2, i0 + 3 := length b3,
                      i0 + 4 := length b4, i0 + 5 := length b5],
           has_matrix = hasm, mat_strt = 0,
           clo_strt = i0, cup_strt = i0 + 1, obj_strt = i0 + 2,
           rlo_strt = i0 + 3, rup_strt = i0 + 4,
           nd_hasQdata = False, nqdata = None, dRowMap = [] \<rparr>))))))))))"

definition setCoreNode :: "'v SmiNodeData \<Rightarrow> 'v SmiNodeData" where
  "setCoreNode node = node\<lparr>isCoreNode := True\<rparr>"

section \<open>SmiNodeData: accessors of the class declaration\<close>

text \<open>
  Modelled from the spec: the inline accessors of \<open>SmiNodeData\<close> are in the header that
  is not among the sources. The constructor records a category's start offset before and
  after filling it, so the segment with start index \<open>i\<close> is the \<open>strt_[i+1] - strt_[i]\<close>
  entries from offset \<open>strt_[i]\<close> on (a length that is not positive gives no entries).
  \<open>getSegment\<close> stands for the three calls \<open>get...Length()\<close>, \<open>get...Indices()\<close> and
  \<open>get...Elements()\<close> and reads the entries they delimit. A matrix row is addressed by its
  internal row index, as in the caller \<open>gutsOfConstructor\<close>, and has no entries in a node
  without a matrix.
\<close>

definition getLength :: "'v SmiNodeData \<Rightarrow> nat \<Rightarrow> nat result" where
  "getLength node i =
     (if Suc i < length (strt node) then Inr (strt node ! Suc i - strt node ! i)
      else Inl OutOfBounds)"

definition getSegment :: "'v SmiNodeData \<Rightarrow> nat \<Rightarrow> (nat \<times> 'v) list result" where
  "getSegment node i = rbind (getLength node i) (\<lambda>len.
     if len = 0 then Inr []
     else if strt node ! i + len \<le> length (buf node)
     then Inr (take len (drop (strt node ! i) (buf node)))
     else Inl OutOfBounds)"

definition getRowLength :: "'v SmiNodeData \<Rightarrow> nat \<Rightarrow> nat result" where
  "getRowLength node irow =
     (if has_matrix node
      then (if rowbeg node \<le> irow then getLength node (mat_strt node + irow - rowbeg node)
            else Inl OutOfBounds)
      else Inr 0)"

definition getRow :: "'v SmiNodeData \<Rightarrow> nat \<Rightarrow> (nat \<times> 'v) list result" where
  "getRow node irow =
     (if has_matrix node
      then (if rowbeg node \<le> irow then getSegment node (mat_strt node + irow - rowbeg node)
            else Inl OutOfBounds)
      else Inr [])"

definition getColLower :: "'v SmiNodeData \<Rightarrow> (nat \<times> 'v) list result" where
  "getColLower node = getSegment node (clo_strt node)"

definition getColUpper :: "'v SmiNodeData \<Rightarrow> (nat \<times> 'v) list result" where
  "getColUpper node = getSegment node (cup_strt node)"

definition getObjective :: "'v SmiNodeData \<Rightarrow> (nat \<times> 'v) list result" where
  "getObjective node = getSegment node (obj_strt node)"

definition getRowLower :: "'v SmiNodeData \<Rightarrow> (nat \<times> 'v) list result" where
  "getRowLower node = getSegment node (rlo_strt node)"

definition getRowUpper :: "'v SmiNodeData \<Rightarrow> (nat \<times> 'v) list result" where
  "getRowUpper node = getSegment node (rup_strt node)"

section \<open>SmiCoreData::gutsOfConstructor: core nodes and dense stage arrays\<close>

text \<open>
  \<open>nColInPrevStages = new int[nstag_]; nColInPrevStages[0] = 0;\<close> and the loop from
  \<open>i = 1\<close>: iteration \<open>k\<close> of the model is \<open>i = k + 1\<close>.
\<close>

definition cols_in_prev_stages :: "nat \<Rightarrow> nat list \<Rightarrow> nat list result" where
  "cols_in_prev_stages ns cnt =
     (if ns = 0 then Inl OutOfBounds
      else for_loop (ns - 1)
             (\<lambda>k p. if Suc k < length p \<and> k < length cnt
                     then Inr (p[Suc k := p ! k + cnt ! k])
                     else Inl OutOfBounds) ((replicate ns 0)[0 := 0]))"

text \<open>
  \<open>intColsStagewise[stage].push_back(indice - nColInPrevStages[stage])\<close> for every integer
  column \<open>indice\<close>, \<open>stage\<close> being its stage; the vector has \<open>nstag\<close> entries.
\<close>

definition int_cols_stagewise ::
  "nat list \<Rightarrow> nat list \<Rightarrow> nat list \<Rightarrow> int list list \<Rightarrow> int list list result"
where
  "int_cols_stagewise ints cstage prev w0 = for_loop (length ints)
     (\<lambda>i w. rbind (array_at cstage (ints ! i)) (\<lambda>stage.
        if stage < length w \<and> stage < length prev
        then Inr (w[stage := w ! stage @ [int (ints ! i) - int (prev ! stage)]])
        else Inl OutOfBounds)) w0"

text \<open>
  \<open>cpv.denseVector(n + i0) + i0\<close>: the dense vector of size \<open>n + i0\<close> of a segment of the
  node, seen from position \<open>i0\<close> on, with its \<open>n\<close> entries.
\<close>

definition dense_stage_array :: "(nat \<times> ('v::zero)) list result \<Rightarrow> nat \<Rightarrow> nat \<Rightarrow> 'v list result" where
  "dense_stage_array seg n i0 =
     rbind seg (\<lambda>cpv. rbind (denseVector (n + i0) cpv) (\<lambda>dv. Inr (drop i0 dv)))"

text \<open>
  \<open>memcpy\<close> of sorted entries over row \<open>irow\<close> of the node
  (\<open>getMutableRowElements\<close>, \<open>getMutableRowIndices\<close>).
\<close>

definition setRow :: "'v SmiNodeData \<Rightarrow> nat \<Rightarrow> (nat \<times> 'v) list \<Rightarrow> 'v SmiNodeData result" where
  "setRow node irow es =
     (if has_matrix node \<and> rowbeg node \<le> irow
         \<and> mat_strt node + irow - rowbeg node < length (strt node)
         \<and> strt node ! (mat_strt node + irow - rowbeg node) + length es \<le> length (buf node)
      then Inr (node\<lparr>buf :=
                  take (strt node ! (mat_strt node + irow - rowbeg node)) (buf node) @ es @
                  drop (strt node ! (mat_strt node + irow - rowbeg node) + length es) (buf node)\<rparr>)
      else Inl OutOfBounds)"

text \<open>
  \<open>for (ii=irow; ii<irow+nrow; ++ii) if (node->getRowLength(ii)>0) { ... sortIncrIndex ... }\<close>:
  iteration \<open>k\<close> of the model is \<open>ii = irow + k\<close>.
\<close>

definition sort_rows :: "nat \<Rightarrow> nat \<Rightarrow> 'v SmiNodeData \<Rightarrow> 'v SmiNodeData result" where
  "sort_rows irow nr node0 = for_loop nr
     (\<lambda>k node. rbind (getRowLength node (irow + k)) (\<lambda>len.
        if len > 0
        then rbind (getRow node (irow + k)) (\<lambda>row. setRow node (irow + k) (sortIncrIndex row))
        else Inr node)) node0"

text \<open>The body of the loop over the stages: the core node of stage \<open>i\<close>.\<close>

definition make_core_node ::
  "('v::zero) CoinPackedMatrix \<Rightarrow> 'v CoinPackedVector \<Rightarrow> 'v CoinPackedVector \<Rightarrow>
   'v CoinPackedVector \<Rightarrow> 'v CoinPackedVector \<Rightarrow> 'v CoinPackedVector \<Rightarrow>
   nat \<Rightarrow> 'v SmiCoreData \<Rightarrow> 'v SmiCoreData result"
where
  "make_core_node matrix dclo dcup dobj drlo drup i core =
     rbind (SmiNodeData_ctor i core (Some matrix) (Some dclo) (Some dcup) (Some dobj)
              (Some drlo) (Some drup)) (\<lambda>node0.
     rbind (getNumRows core i) (\<lambda>nr.
     rbind (getNumCols core i) (\<lambda>nc.
     rbind (getRowStart core i) (\<lambda>irow.
     rbind (getColStart core i) (\<lambda>icol.
     rbind (dense_stage_array (getRowLower (setCoreNode node0)) nr irow) (\<lambda>rlo.
     rbind (dense_stage_array (getRowUpper (setCoreNode node0)) nr irow) (\<lambda>rup.
     rbind (dense_stage_array (getColLower (setCoreNode node0)) nc icol) (\<lambda>clo.
     rbind (dense_stage_array (getColUpper (setCoreNode node0)) nc icol) (\<lambda>cup.
     rbind (dense_stage_array (getObjective (setCoreNode node0)) nc icol) (\<lambda>obj.
     rbind (sort_rows irow nr (setCoreNode node0)) (\<lambda>node.
     if i < length (cdrlo core) \<and> i < length (cdrup core) \<and> i < length (cdclo core)
        \<and> i < length (cdcup core) \<and> i < length (cdobj core)
     then Inr (core\<lparr>nodes := nodes core @ [node],
                     cdrlo := (cdrlo core)[i := rlo], cdrup := (cdrup core)[i := rup],
                     cdclo := (cdclo core)[i := clo], cdcup := (cdcup core)[i := cup],
                     cdobj := (cdobj core)[i := obj]\<rparr>)
     else Inl OutOfBounds)))))))))))"

text \<open>
  \<open>gutsOfConstructor\<close>. The stage maps \<open>cstag\<close> and \<open>rstag\<close> are copied with their first
  \<open>ncol\<close> and \<open>nrow\<close> entries; the integer and binary index arrays come with their
  lengths. The flag \<open>hasQdata\<close> is set by the calling constructor.
\<close>

definition gutsOfConstructor ::
  "nat \<Rightarrow> nat \<Rightarrow> nat \<Rightarrow> nat list \<Rightarrow> nat list \<Rightarrow> ('v::zero) CoinPackedMatrix \<Rightarrow>
   'v CoinPackedVector \<Rightarrow> 'v CoinPackedVector \<Rightarrow> 'v CoinPackedVector \<Rightarrow>
   'v CoinPackedVector \<Rightarrow> 'v CoinPackedVector \<Rightarrow> nat list \<Rightarrow> nat list \<Rightarrow>
   'v SmiCoreData result"
where
  "gutsOfConstructor nrow' ncol' nstag' cstag rstag matrix dclo dcup dobj drlo drup ints bins =
     (if length cstag < ncol' \<or> length rstag < nrow' then Inl OutOfBounds
      else
       rbind (stage_maps nstag' nrow' (take nrow' rstag)) (\<lambda>(nRow, rowPtr, rEx2In, rIn2Ex).
       rbind (stage_maps nstag' ncol' (take ncol' cstag)) (\<lambda>(nCol, colPtr, cEx2In, cIn2Ex).
       rbind (cols_in_prev_stages nstag' nCol) (\<lambda>prev.
       rbind (int_cols_stagewise ints (take ncol' cstag) prev (replicate nstag' [])) (\<lambda>icsw.
       for_loop nstag' (make_core_node matrix dclo dcup dobj drlo drup)
         \<lparr> nrow = nrow', ncol = ncol', nstag = nstag',
           nColInStage = nCol, nRowInStage = nRow,
           stageColPtr = colPtr, stageRowPtr = rowPtr,
           colStage = take ncol' cstag, rowStage = take nrow' rstag,
           colEx2In = cEx2In, rowEx2In = rEx2In, colIn2Ex = cIn2Ex, rowIn2Ex = rIn2Ex,
           integerIndices = ints, binaryIndices = bins, intColsStagewise = icsw,
           cdrlo = replicate nstag' [], cdrup = replicate nstag' [],
           cdobj = replicate nstag' [], cdclo = replicate nstag' [],
           cdcup = replicate nstag' [], nodes = [], hasQdata = False, sqp = None \<rparr>)))))"

text \<open>
  The constructors from a solver interface or an MPS reader: the bounds and the objective
  become full packed vectors. \<open>matrix\<close> is the row-ordered copy of the problem matrix
  after the library call \<open>eliminateDuplicates(0.0)\<close>.
\<close>

definition SmiCoreData_ctor ::
  "nat \<Rightarrow> nat \<Rightarrow> ('v::zero) list \<Rightarrow> 'v list \<Rightarrow> 'v list \<Rightarrow> 'v list \<Rightarrow> 'v list \<Rightarrow>
   'v CoinPackedMatrix \<Rightarrow> nat \<Rightarrow> nat list \<Rightarrow> nat list \<Rightarrow> nat list \<Rightarrow> nat list \<Rightarrow>
   'v SmiCoreData result"
where
  "SmiCoreData_ctor nrow' ncol' rowLower rowUpper colLower colUpper objCoefficients matrix
       nstag' cstag rstag ints bins =
     rbind (fullVector nrow' rowLower) (\<lambda>drlo.
     rbind (fullVector nrow' rowUpper) (\<lambda>drup.
     rbind (fullVector ncol' colLower) (\<lambda>dclo.
     rbind (fullVector ncol' colUpper) (\<lambda>dcup.
     rbind (fullVector ncol' objCoefficients) (\<lambda>dobj.
     rbind (gutsOfConstructor nrow' ncol' nstag' cstag rstag matrix dclo dcup dobj drlo drup
              ints bins) (\<lambda>core.
     Inr (core\<lparr>hasQdata := False\<rparr>)))))))"

text \<open>
  The stage labels as the caller passes them, \<open>int *cstag\<close> and \<open>int *rstag\<close>. The first
  \<open>ncol\<close> (\<open>nrow\<close>) labels are copied and each one is used as a subscript of the counters,
  \<open>nRowInStage_[rowStage_[i]]++\<close> and \<open>nColInStage_[colStage_[i]]++\<close>: a negative label is a
  subscript before the start of the array. Labels that are not negative are the natural
  numbers on which \<open>gutsOfConstructor\<close> above works.
\<close>

definition stage_subscripts :: "nat \<Rightarrow> int list \<Rightarrow> nat list result" where
  "stage_subscripts n stage =
     (if length stage < n then Inl OutOfBounds
      else if list_ex (\<lambda>s. s < 0) (take n stage) then Inl OutOfBounds
      else Inr (map nat (take n stage)))"



section \<open>Dense stage arrays and the combine step\<close>

text \<open>
  \<open>CoinDisjointCopyN(cd..._[t], n, d)\<close>: the \<open>n\<close> values written to the destination.
\<close>

definition copy_stage_array :: "'v list list \<Rightarrow> nat result \<Rightarrow> nat \<Rightarrow> 'v list result" where
  "copy_stage_array cd n t =
     rbind (array_at cd t) (\<lambda>a. rbind n (\<lambda>n'.
       if n' \<le> length a then Inr (take n' a) else Inl OutOfBounds))"

definition SmiCoreData_copyRowLower :: "'v SmiCoreData \<Rightarrow> nat \<Rightarrow> 'v list result" where
  "SmiCoreData_copyRowLower core t = copy_stage_array (cdrlo core) (getNumRows core t) t"

definition SmiCoreData_copyRowUpper :: "'v SmiCoreData \<Rightarrow> nat \<Rightarrow> 'v list result" where
  "SmiCoreData_copyRowUpper core t = copy_stage_array (cdrup core) (getNumRows core t) t"

definition SmiCoreData_copyColLower :: "'v SmiCoreData \<Rightarrow> nat \<Rightarrow> 'v list result" where
  "SmiCoreData_copyColLower core t = copy_stage_array (cdclo core) (getNumCols core t) t"

definition SmiCoreData_copyColUpper :: "'v SmiCoreData \<Rightarrow> nat \<Rightarrow> 'v list result" where
  "SmiCoreData_copyColUpper core t = copy_stage_array (cdcup core) (getNumCols core t) t"

definition SmiCoreData_copyObjective :: "'v SmiCoreData \<Rightarrow> nat \<Rightarrow> 'v list result" where
  "SmiCoreData_copyObjective core t = copy_stage_array (cdobj core) (getNumCols core t) t"

text \<open>
  Modelled from the spec: the combine rule (\<open>SmiCoreCombineRule\<close>, reached through
  \<open>getCoreCombineRule()\<close>) is not among the sources. The spec's default policy is that
  sparse entries overwrite the corresponding dense entries and entries absent from the
  delta keep the core value. \<open>Process d1 o1 cpv\<close> is the overload called by
  \<open>combineWithCoreDoubleArray\<close>: the dense array is the stage's, the indices of the delta
  are internal, and \<open>o1\<close>, the start of the stage, is the offset between them.
  \<open>ProcessDenseRow\<close> is the overload of the spec's section on the combine rule:
  \<open>denseResult[i] = sparseOverride[i]\<close> if \<open>i\<close> is present in the override, else
  \<open>denseBase[i]\<close>.
\<close>

definition Process :: "'v list \<Rightarrow> nat \<Rightarrow> (nat \<times> 'v) list \<Rightarrow> 'v list result" where
  "Process d1 o1 cpv = for_loop (length cpv)
     (\<lambda>j d. if o1 \<le> fst (cpv ! j) \<and> fst (cpv ! j) - o1 < length d
             then Inr (d[fst (cpv ! j) - o1 := snd (cpv ! j)])
             else Inl OutOfBounds) d1"

definition ProcessDenseRow :: "'v list \<Rightarrow> nat \<Rightarrow> (nat \<times> 'v) list \<Rightarrow> 'v list result" where
  "ProcessDenseRow dr dr_len cpv =
     (if dr_len \<le> length dr then scatter (take dr_len dr) cpv else Inl OutOfBounds)"

definition combineWithDenseCoreRow ::
  "'v SmiCoreData \<Rightarrow> 'v SmiNodeData \<Rightarrow> 'v list \<Rightarrow> (nat \<times> 'v) list \<Rightarrow> 'v list result"
where
  "combineWithDenseCoreRow core node dr cpv = ProcessDenseRow dr (ncol core) cpv"

definition combineWithCoreDoubleArray ::
  "'v SmiNodeData \<Rightarrow> 'v list \<Rightarrow> (nat \<times> 'v) list \<Rightarrow> nat \<Rightarrow> 'v list result"
where
  "combineWithCoreDoubleArray node d_out cpv o1 =
     (if \<not> isCoreNode node then Process d_out o1 cpv else Inr d_out)"

definition copyRowLower :: "'v SmiCoreData \<Rightarrow> 'v SmiNodeData \<Rightarrow> 'v list result" where
  "copyRowLower core node =
     rbind (SmiCoreData_copyRowLower core (stg node)) (\<lambda>d.
     rbind (getRowLower node) (\<lambda>cpv.
     rbind (getRowStart core (stg node)) (\<lambda>o1.
     combineWithCoreDoubleArray node d cpv o1)))"

definition copyRowUpper :: "'v SmiCoreData \<Rightarrow> 'v SmiNodeData \<Rightarrow> 'v list result" where
  "copyRowUpper core node =
     rbind (SmiCoreData_copyRowUpper core (stg node)) (\<lambda>d.
     rbind (getRowUpper node) (\<lambda>cpv.
     rbind (getRowStart core (stg node)) (\<lambda>o1.
     combineWithCoreDoubleArray node d cpv o1)))"

definition copyColLower :: "'v SmiCoreData \<Rightarrow> 'v SmiNodeData \<Rightarrow> 'v list result" where
  "copyColLower core node =
     rbind (SmiCoreData_copyColLower core (stg node)) (\<lambda>d.
     rbind (getColLower node) (\<lambda>cpv.
     rbind (getColStart core (stg node)) (\<lambda>o1.
     combineWithCoreDoubleArray node d cpv o1)))"

definition copyColUpper :: "'v SmiCoreData \<Rightarrow> 'v SmiNodeData \<Rightarrow> 'v list result" where
  "copyColUpper core node =
     rbind (SmiCoreData_copyColUpper core (stg node)) (\<lambda>d.
     rbind (getColUpper node) (\<lambda>cpv.
     rbind (getColStart core (stg node)) (\<lambda>o1.
     combineWithCoreDoubleArray node d cpv o1)))"

definition copyObjective :: "'v SmiCoreData \<Rightarrow> 'v SmiNodeData \<Rightarrow> 'v list result" where
  "copyObjective core node =
     rbind (SmiCoreData_copyObjective core (stg node)) (\<lambda>d.
     rbind (getObjective node) (\<lambda>cpv.
     rbind (getColStart core (stg node)) (\<lambda>o1.
     combineWithCoreDoubleArray node d cpv o1)))"

text \<open>
  \<open>getDenseRow(i)\<close>: the array kept for row \<open>i\<close> in \<open>dRowMap\<close> (allocated at the first
  call) is zero-filled over the \<open>getCore()->getNumCols()\<close> columns of the core and the
  entries of the row are written into it; the array and the node with its updated map
  are returned.
\<close>

definition getDenseRow ::
  "('v::zero) SmiCoreData \<Rightarrow> 'v SmiNodeData \<Rightarrow> nat \<Rightarrow> ('v list \<times> 'v SmiNodeData) result"
where
  "getDenseRow core node i =
     rbind (getRow node i) (\<lambda>row.
     rbind (scatter (replicate (ncol core) 0) row) (\<lambda>dv.
     Inr (dv, node\<lparr>dRowMap := AList.update i dv (dRowMap node)\<rparr>)))"

section \<open>Quadratic objective data\<close>









section \<open>Auxiliary notions for the proofs\<close>

text \<open>
  The number of labels equal to \<open>s\<close>, and the number of labels below \<open>s\<close>: the count of
  a stage and the start of its block.
\<close>

definition occ :: "nat \<Rightarrow> nat list \<Rightarrow> nat" where
  "occ s xs = length (filter (\<lambda>x. x = s) xs)"

definition below :: "nat \<Rightarrow> nat list \<Rightarrow> nat" where
  "below s xs = length (filter (\<lambda>x. x < s) xs)"

text \<open>
  The position of the external index \<open>i\<close> in the stable partition by stage, and the
  inverse table after the first \<open>k\<close> indices have been placed.
\<close>

definition slot :: "nat list \<Rightarrow> nat \<Rightarrow> nat" where
  "slot stage i = below (stage ! i) stage + occ (stage ! i) (take i stage)"

primrec place_in2ex :: "nat list \<Rightarrow> nat \<Rightarrow> nat \<Rightarrow> nat list" where
  "place_in2ex stage n 0 = replicate n 0"
| "place_in2ex stage n (Suc k) = (place_in2ex stage n k)[slot stage k := k]"

text \<open>The external indices of stage \<open>t\<close>, in ascending order.\<close>

definition stage_members :: "nat list \<Rightarrow> nat \<Rightarrow> nat list" where
  "stage_members stage t = filter (\<lambda>r. stage ! r = t) [0..<length stage]"

text \<open>
  The index maps of a core as the stable partition of the external indices by stage:
  the start of stage \<open>t\<close> is the number of labels below \<open>t\<close>, and the internal index of
  \<open>i\<close> is the start of its stage plus the number of earlier indices with the same label.
  Labels up to and including \<open>nstag\<close> fit the arrays of \<open>nstag + 1\<close> counters.
\<close>

definition maps_wf :: "'v SmiCoreData \<Rightarrow> bool" where
  "maps_wf core \<longleftrightarrow>
     length (colStage core) = ncol core \<and> length (rowStage core) = nrow core \<and>
     (\<forall>c<ncol core. colStage core ! c \<le> nstag core) \<and>
     (\<forall>r<nrow core. rowStage core ! r \<le> nstag core) \<and>
     nColInStage core = map (\<lambda>s. occ s (colStage core)) [0..<Suc (nstag core)] \<and>
     nRowInStage core = map (\<lambda>s. occ s (rowStage core)) [0..<Suc (nstag core)] \<and>
     stageColPtr core = map (\<lambda>t. below t (colStage core)) [0..<Suc (nstag core)] \<and>
     stageRowPtr core = map (\<lambda>t. below t (rowStage core)) [0..<Suc (nstag core)] \<and>
     colEx2In core = map (slot (colStage core)) [0..<ncol core] \<and>
     rowEx2In core = map (slot (rowStage core)) [0..<nrow core] \<and>
     colIn2Ex core = place_in2ex (colStage core) (ncol core) (ncol core) \<and>
     rowIn2Ex core = place_in2ex (rowStage core) (nrow core) (nrow core)"

text \<open>The entries of a packed vector that belong to a stage, with translated indices.\<close>

definition stage_entries :: "nat list \<Rightarrow> nat list \<Rightarrow> nat \<Rightarrow> (nat \<times> 'v) list \<Rightarrow> (nat \<times> 'v) list" where
  "stage_entries stageOf ex2in t cpv =
     map (\<lambda>p. (ex2in ! fst p, snd p)) (filter (\<lambda>p. stageOf ! fst p = t) cpv)"

definition opt_entries :: "'a list option \<Rightarrow> 'a list" where
  "opt_entries d = (case d of None \<Rightarrow> [] | Some v \<Rightarrow> v)"

text \<open>
  The matrix rows a node of stage \<open>t\<close> takes from a matrix: the rows of the stage in
  internal order, with internal column indices; none when the matrix has no elements.
\<close>

definition node_rows :: "'v SmiCoreData \<Rightarrow> nat \<Rightarrow> 'v CoinPackedMatrix option \<Rightarrow> (nat \<times> 'v) list list" where
  "node_rows core t matrix =
     (case matrix of
        None \<Rightarrow> []
      | Some m \<Rightarrow>
          if getNumElements m > 0
          then map (\<lambda>k. map (\<lambda>p. (colEx2In core ! fst p, snd p))
                          (m ! (rowIn2Ex core ! (stageRowPtr core ! t + k))))
                 [0..<nRowInStage core ! t]
          else [])"

text \<open>
  The layout of a node's storage: the buffer is the rows followed by the five categories,
  and the start offsets recorded for them are the running lengths.
\<close>

definition node_layout ::
  "'v SmiNodeData \<Rightarrow> (nat \<times> 'v) list list \<Rightarrow> (nat \<times> 'v) list \<Rightarrow> (nat \<times> 'v) list \<Rightarrow>
   (nat \<times> 'v) list \<Rightarrow> (nat \<times> 'v) list \<Rightarrow> (nat \<times> 'v) list \<Rightarrow> bool"
where
  "node_layout node rows e1 e2 e3 e4 e5 \<longleftrightarrow>
     buf node = concat rows @ e1 @ e2 @ e3 @ e4 @ e5 \<and>
     length rows + 6 \<le> length (strt node) \<and>
     (\<forall>k\<le>length rows. strt node ! k = length (concat (take k rows))) \<and>
     strt node ! (length rows + 1) = length (concat rows) + length e1 \<and>
     strt node ! (length rows + 2) = length (concat rows) + length e1 + length e2 \<and>
     strt node ! (length rows + 3) = length (concat rows) + length e1 + length e2 + length e3 \<and>
     strt node ! (length rows + 4)
       = length (concat rows) + length e1 + length e2 + length e3 + length e4 \<and>
     strt node ! (length rows + 5)
       = length (concat rows) + length e1 + length e2 + length e3 + length e4 + length e5 \<and>
     mat_strt node = 0 \<and> clo_strt node = length rows \<and> cup_strt node = length rows + 1 \<and>
     obj_strt node = length rows + 2 \<and> rlo_strt node = length rows + 3 \<and>
     rup_strt node = length rows + 4"

text \<open>
  A dense array of a stage overwritten by a packed vector given in external indices:
  position \<open>j\<close> belongs to the external index \<open>in2ex ! (start + j)\<close> and takes the value of
  the last entry of the vector for that index, or keeps the base value when there is none.
\<close>

definition overlay :: "nat list \<Rightarrow> nat \<Rightarrow> (nat \<times> 'v) list \<Rightarrow> 'v list \<Rightarrow> 'v list" where
  "overlay in2ex start cpv base =
     map (\<lambda>j. case map_of (rev cpv) (in2ex ! (start + j)) of Some v \<Rightarrow> v | None \<Rightarrow> base ! j)
       [0..<length base]"

text \<open>
  What \<open>gutsOfConstructor\<close> leaves for stage \<open>t\<close>: the core node with its rows sorted and
  the five categories filtered from the full vectors, and the five dense stage arrays.
\<close>

definition core_node_ok ::
  "('v::zero) SmiCoreData \<Rightarrow> 'v CoinPackedMatrix \<Rightarrow> 'v CoinPackedVector \<Rightarrow> 'v CoinPackedVector \<Rightarrow>
   'v CoinPackedVector \<Rightarrow> 'v CoinPackedVector \<Rightarrow> 'v CoinPackedVector \<Rightarrow> nat \<Rightarrow>
   'v SmiNodeData \<Rightarrow> bool"
where
  "core_node_ok core m dclo dcup dobj drlo drup t node \<longleftrightarrow>
     node_layout node (map sortIncrIndex (node_rows core t (Some m)))
       (stage_entries (colStage core) (colEx2In core) t dclo)
       (stage_entries (colStage core) (colEx2In core) t dcup)
       (stage_entries (colStage core) (colEx2In core) t dobj)
       (stage_entries (rowStage core) (rowEx2In core) t drlo)
       (stage_entries (rowStage core) (rowEx2In core) t drup) \<and>
     stg node = t \<and> isCoreNode node \<and>
     nd_nrow node = nRowInStage core ! t \<and> nd_ncol node = nColInStage core ! t \<and>
     rowbeg node = stageRowPtr core ! t \<and> colbeg node = stageColPtr core ! t \<and>
     (has_matrix node \<longleftrightarrow> 0 < getNumElements m) \<and>
     (has_matrix node \<longrightarrow> length (node_rows core t (Some m)) = nd_nrow node) \<and>
     (\<not> has_matrix node \<longrightarrow> node_rows core t (Some m) = []) \<and>
     length (strt node) = nd_nrow node + 6 \<and> dRowMap node = [] \<and>
     (\<forall>p\<in>set (dclo @ dcup @ dobj). fst p < ncol core) \<and>
     (\<forall>p\<in>set (drlo @ drup). fst p < nrow core) \<and>
     (\<forall>k<length (node_rows core t (Some m)).
        \<forall>q\<in>set (m ! (rowIn2Ex core ! (stageRowPtr core ! t + k))). fst q < ncol core)"

definition core_stage_ok ::
  "('v::zero) SmiCoreData \<Rightarrow> 'v CoinPackedMatrix \<Rightarrow> 'v CoinPackedVector \<Rightarrow> 'v CoinPackedVector \<Rightarrow>
   'v CoinPackedVector \<Rightarrow> 'v CoinPackedVector \<Rightarrow> 'v CoinPackedVector \<Rightarrow> nat \<Rightarrow> bool"
where
  "core_stage_ok core m dclo dcup dobj drlo drup t \<longleftrightarrow>
     t < length (nodes core) \<and> core_node_ok core m dclo dcup dobj drlo drup t (nodes core ! t) \<and>
     cdclo core ! t = overlay (colIn2Ex core) (stageColPtr core ! t) dclo
                        (replicate (nColInStage core ! t) 0) \<and>
     cdcup core ! t = overlay (colIn2Ex core) (stageColPtr core ! t) dcup
                        (replicate (nColInStage core ! t) 0) \<and>
     cdobj core ! t = overlay (colIn2Ex core) (stageColPtr core ! t) dobj
                        (replicate (nColInStage core ! t) 0) \<and>
     cdrlo core ! t = overlay (rowIn2Ex core) (stageRowPtr core ! t) drlo
                        (replicate (nRowInStage core ! t) 0) \<and>
     cdrup core ! t = overlay (rowIn2Ex core) (stageRowPtr core ! t) drup
                        (replicate (nRowInStage core ! t) 0)"

text \<open>
  What the spec says of \<open>getDenseRow(i)\<close>: a dense array over the columns of the core
  with the entries of row \<open>i\<close> scattered at their internal column indices and zero
  elsewhere, returned again unchanged by a second call on the node as the first call
  left it.
\<close>

definition getDenseRow_spec :: "('v::zero) SmiCoreData \<Rightarrow> 'v SmiNodeData \<Rightarrow> nat \<Rightarrow> bool" where
  "getDenseRow_spec core node i \<longleftrightarrow>
     (\<exists>row dv node'.
        getRow node i = Inr row \<and> getDenseRow core node i = Inr (dv, node') \<and>
        length dv = ncol core \<and>
        (\<forall>p\<in>set row. fst p < ncol core) \<and>
        (\<forall>c<ncol core. dv ! c = (case map_of (rev row) c of Some v \<Rightarrow> v | None \<Rightarrow> 0)) \<and>
        (\<forall>c<ncol core. c \<notin> fst ` set row \<longrightarrow> dv ! c = 0) \<and>
        (distinct (map fst row) \<longrightarrow> (\<forall>p\<in>set row. dv ! fst p = snd p)) \<and>
        getDenseRow core node' i = Inr (dv, node'))"

text \<open>
  The quadratic terms of column \<open>j\<close> are the positions \<open>starts[j] .. starts[j+1]-1\<close>. A
  column has a cross-stage term when one of its terms refers to a column of another
  stage.
\<close>

definition qlen :: "nat list \<Rightarrow> nat \<Rightarrow> nat" where
  "qlen starts j = starts ! Suc j - starts ! j"



text \<open>
  The number of terms the node of stage \<open>t\<close> holds for the internal column \<open>i\<close>, and the
  column starts of its copy.
\<close>

definition qcount :: "'v SmiCoreData \<Rightarrow> nat list \<Rightarrow> nat \<Rightarrow> nat \<Rightarrow> nat" where
  "qcount core starts t i =
     (if colStage core ! (colIn2Ex core ! i) = t then qlen starts (colIn2Ex core ! i) else 0)"

definition qstarts :: "'v SmiCoreData \<Rightarrow> nat list \<Rightarrow> nat \<Rightarrow> nat list" where
  "qstarts core starts t =
     map (\<lambda>i. sum_list (map (qcount core starts t) [0..<i])) [0..<Suc (ncol core)]"

text \<open>Two nodes, or two cores, that differ at most in their quadratic data.\<close>

definition same_linear_node :: "'v SmiNodeData \<Rightarrow> 'v SmiNodeData \<Rightarrow> bool" where
  "same_linear_node a b \<longleftrightarrow> a\<lparr>nd_hasQdata := nd_hasQdata b, nqdata := nqdata b\<rparr> = b"


section \<open>Example inputs\<close>

text \<open>
  A core with three columns (stages 1, 0, 1), two rows (stages 1, 0) and two stages.
\<close>

definition ex_guts :: "real SmiCoreData result" where
  "ex_guts = gutsOfConstructor 2 3 2 [1, 0, 1] [1, 0] [[(0, 5), (1, 2), (2, 7)], [(1, 3)]]
     [(0, 20), (1, 21), (2, 22)] [(0, 30), (1, 31), (2, 32)] [(0, 40), (1, 41), (2, 42)]
     [(0, 10), (1, 12)] [(0, 11), (1, 13)] [] []"

text \<open>
  A scenario node of stage 1 on that core: a matrix whose row 0 has entries in the
  external columns 0 and 1 (internal 1 and 0), and lower bounds for the columns 0 and 1.
\<close>

definition ex_node :: "real SmiNodeData result" where
  "ex_node = SmiNodeData_ctor 1 (projr ex_guts) (Some [[(0, 4), (1, 5)], []])
     (Some [(0, 1), (1, 2)]) None None None None"

text \<open>A scenario node of stage 1 without a matrix, with one lower bound of its stage.\<close>

definition ex_node_nomatrix :: "real SmiNodeData result" where
  "ex_node_nomatrix = SmiNodeData_ctor 1 (projr ex_guts) None
     (Some [(0, 1), (1, 2)]) None None None None"

text \<open>
  The example of the spec: two columns (column 0 in stage 0, column 1 in stage 1), two
  stages, a single row in stage 1 with the coefficient 2 on column 1; and a scenario node
  of stage 1 with the coefficient 3 at the same position and a lower bound 7 for column 1.
\<close>

definition ex2_guts :: "real SmiCoreData result" where
  "ex2_guts = gutsOfConstructor 1 2 2 [0, 1] [1] [[(1, 2)]]
     [(0, 0), (1, 1)] [(0, 9), (1, 9)] [(0, 1), (1, 1)] [(0, 0)] [(0, 5)] [] []"

definition ex2_node :: "real SmiNodeData result" where
  "ex2_node = SmiNodeData_ctor 1 (projr ex2_guts) (Some [[(1, 3)]])
     (Some [(1, 7)]) None None None None"

text \<open>The core of the first example built by the public constructor from dense arrays.\<close>

definition ex_ctor :: "real SmiCoreData result" where
  "ex_ctor = SmiCoreData_ctor 2 3 [10, 12] [11, 13] [20, 21, 22] [30, 31, 32] [40, 41, 42]
     [[(0, 5), (1, 2), (2, 7)], [(1, 3)]] 2 [1, 0, 1] [1, 0] [] []"





section \<open>Results, loops and the stage maps\<close>

lemma rbind_Inr [simp]: "rbind (Inr x) f = f x"
  by (simp add: rbind_def)

lemma rbind_Inl [simp]: "rbind (Inl e) f = Inl e"
  by (simp add: rbind_def)

lemma rbind_eq_Inr: "rbind m f = Inr y \<longleftrightarrow> (\<exists>x. m = Inr x \<and> f x = Inr y)"
  by (cases m) simp_all

lemma array_at_Inr [simp]: "i < length xs \<Longrightarrow> array_at xs i = Inr (xs ! i)"
  by (simp add: array_at_def)

lemma array_at_eq_Inr: "array_at xs i = Inr x \<longleftrightarrow> i < length xs \<and> x = xs ! i"
  by (auto simp: array_at_def)

text \<open>A loop whose body succeeds with a known effect on states satisfying an invariant.\<close>

lemma for_loop_closed:
  assumes "\<And>i. i < n \<Longrightarrow> body i (f i) = Inr (f (Suc i))"
  shows "for_loop n body (f 0) = Inr (f n)"
  using assms by (induction n) simp_all

lemma for_loop_cong_body:
  assumes "\<And>i s. i < n \<Longrightarrow> body i s = body' i s"
  shows "for_loop n body s = for_loop n body' s"
  using assms
proof (induction n)
  case 0 show ?case by simp
next
  case (Suc n)
  then have "for_loop n body s = for_loop n body' s" by simp
  then show ?case using Suc.prems[of n] by (cases "for_loop n body' s") simp_all
qed

lemma for_loop_invariant:
  assumes "for_loop n body s = Inr s'" and "I 0 s"
    and "\<And>i a b. i < n \<Longrightarrow> I i a \<Longrightarrow> body i a = Inr b \<Longrightarrow> I (Suc i) b"
  shows "I n s'"
  using assms
proof (induction n arbitrary: s')
  case 0 then show ?case by simp
next
  case (Suc n)
  from Suc.prems(1) obtain a where a: "for_loop n body s = Inr a" and b: "body n a = Inr s'"
    by (auto simp: rbind_eq_Inr)
  have "I n a" using Suc.IH[OF a Suc.prems(2)] Suc.prems(3) by simp
  then show ?case using Suc.prems(3)[of n a s'] b by simp
qed

lemma occ_append [simp]: "occ s (xs @ ys) = occ s xs + occ s ys"
  by (simp add: occ_def)

lemma occ_Nil [simp]: "occ s [] = 0" by (simp add: occ_def)

lemma occ_Cons [simp]: "occ s (x # xs) = (if x = s then Suc (occ s xs) else occ s xs)" by (simp add: occ_def)

lemma below_Nil [simp]: "below s [] = 0" by (simp add: below_def)

lemma below_0 [simp]: "below 0 xs = 0" by (simp add: below_def)

lemma below_Suc: "below (Suc s) xs = below s xs + occ s xs"
  by (induction xs) (auto simp: below_def occ_def)

lemma below_le_length: "below s xs \<le> length xs" by (simp add: below_def)

lemma below_mono: "s \<le> t \<Longrightarrow> below s xs \<le> below t xs"
  by (induction xs) (auto simp: below_def)

lemma count_in_stage_char:
  assumes "n \<le> length stage"
  shows "count_in_stage n stage cnt0 =
         (if \<forall>i<n. stage ! i < length cnt0
          then Inr (map (\<lambda>s. cnt0 ! s + occ s (take n stage)) [0..<length cnt0])
          else Inl OutOfBounds)"
  using assms
proof (induction n)
  case 0
  show ?case by (simp add: count_in_stage_def map_nth)
next
  case (Suc n)
  then have IH: "count_in_stage n stage cnt0 =
         (if \<forall>i<n. stage ! i < length cnt0
          then Inr (map (\<lambda>s. cnt0 ! s + occ s (take n stage)) [0..<length cnt0])
          else Inl OutOfBounds)" by simp
  have tk: "take (Suc n) stage = take n stage @ [stage ! n]"
    using Suc.prems by (simp add: take_Suc_conv_app_nth)
  show ?case
  proof (cases "\<forall>i<n. stage ! i < length cnt0")
    case False
    then show ?thesis using IH by (auto simp: count_in_stage_def)
  next
    case True
    show ?thesis
    proof (cases "stage ! n < length cnt0")
      case False
      then show ?thesis using IH True by (auto simp: count_in_stage_def)
    next
      case sn: True
      have all: "\<forall>i<Suc n. stage ! i < length cnt0" using True sn by (simp add: less_Suc_eq)
      have "(map (\<lambda>s. cnt0 ! s + occ s (take n stage)) [0..<length cnt0])
              [stage ! n := Suc (cnt0 ! (stage ! n) + occ (stage ! n) (take n stage))]
            = map (\<lambda>s. cnt0 ! s + occ s (take (Suc n) stage)) [0..<length cnt0]"
      proof (rule nth_equalityI)
        fix i assume "i < length ((map (\<lambda>s. cnt0 ! s + occ s (take n stage)) [0..<length cnt0])
              [stage ! n := Suc (cnt0 ! (stage ! n) + occ (stage ! n) (take n stage))])"
        then have i: "i < length cnt0" by simp
        show "(map (\<lambda>s. cnt0 ! s + occ s (take n stage)) [0..<length cnt0])
              [stage ! n := Suc (cnt0 ! (stage ! n) + occ (stage ! n) (take n stage))] ! i
            = map (\<lambda>s. cnt0 ! s + occ s (take (Suc n) stage)) [0..<length cnt0] ! i"
          using i sn by (simp add: nth_list_update tk)
      qed simp
      then show ?thesis using IH True sn all
        unfolding count_in_stage_def by simp
    qed
  qed
qed

lemma set_stage_ptrs_char:
  assumes "length ptr = Suc ns" and "ns \<le> length cnt"
  shows "set_stage_ptrs ns cnt ptr = Inr (map (\<lambda>t. sum_list (take t cnt)) [0..<Suc ns])"
proof -
  define f where "f k = map (\<lambda>t. if t \<le> k then sum_list (take t cnt) else ptr ! t) [0..<Suc ns]" for k
  have f0: "ptr[0 := 0] = f 0"
    by (rule nth_equalityI) (auto simp: f_def assms nth_list_update simp del: upt_Suc)
  have step: "(if Suc i < length (f i) \<and> i < length cnt
               then Inr ((f i)[Suc i := f i ! i + cnt ! i]) else Inl OutOfBounds) = Inr (f (Suc i))"
    if "i < ns" for i
  proof -
    have len: "Suc i < length (f i)" "i < length cnt" using that assms by (simp_all add: f_def)
    have "(f i)[Suc i := f i ! i + cnt ! i] = f (Suc i)"
    proof (rule nth_equalityI)
      fix t assume "t < length ((f i)[Suc i := f i ! i + cnt ! i])"
      then have t: "t < Suc ns" by (simp add: f_def)
      have tk: "take (Suc i) cnt = take i cnt @ [cnt ! i]"
        using len by (simp add: take_Suc_conv_app_nth)
      show "(f i)[Suc i := f i ! i + cnt ! i] ! t = f (Suc i) ! t"
        using t that tk by (auto simp: f_def nth_list_update simp del: upt_Suc)
    qed (simp add: f_def)
    then show ?thesis using len by simp
  qed
  have "for_loop ns (\<lambda>i p. if Suc i < length p \<and> i < length cnt
             then Inr (p[Suc i := p ! i + cnt ! i]) else Inl OutOfBounds) (f 0) = Inr (f ns)"
    by (rule for_loop_closed) (rule step)
  moreover have "f ns = map (\<lambda>t. sum_list (take t cnt)) [0..<Suc ns]"
    by (simp add: f_def del: upt_Suc)
  ultimately show ?thesis by (simp add: set_stage_ptrs_def f0)
qed

lemma sum_take_occ:
  "t \<le> Suc ns \<Longrightarrow> sum_list (take t (map (\<lambda>s. occ s stage) [0..<Suc ns])) = below t stage"
proof (induction t)
  case 0 show ?case by simp
next
  case (Suc t)
  then have "take (Suc t) (map (\<lambda>s. occ s stage) [0..<Suc ns])
             = take t (map (\<lambda>s. occ s stage) [0..<Suc ns]) @ [occ t stage]"
    by (simp add: take_Suc_conv_app_nth del: upt_Suc)
  then show ?case using Suc by (simp add: below_Suc)
qed

lemma occ_take_less:
  assumes "i < length stage"
  shows "occ (stage ! i) (take i stage) < occ (stage ! i) stage"
proof -
  have "stage = take i stage @ stage ! i # drop (Suc i) stage"
    using assms by (simp add: id_take_nth_drop)
  then have "occ (stage ! i) stage = occ (stage ! i) (take i stage @ stage ! i # drop (Suc i) stage)"
    by simp
  then show ?thesis by simp
qed

lemma occ_take_mono: "i \<le> j \<Longrightarrow> occ s (take i stage) \<le> occ s (take j stage)"
proof -
  assume "i \<le> j"
  then have "take j stage = take i stage @ take (j - i) (drop i stage)"
    by (metis le_add_diff_inverse take_add)
  then show ?thesis by simp
qed

lemma occ_take_strict:
  assumes "i < j" and "j \<le> length stage"
  shows "occ (stage ! i) (take i stage) < occ (stage ! i) (take j stage)"
proof -
  have "occ (stage ! i) (take i stage) < occ (stage ! i) (take (Suc i) stage)"
    using assms by (simp add: take_Suc_conv_app_nth)
  also have "\<dots> \<le> occ (stage ! i) (take j stage)"
    using assms by (intro occ_take_mono) simp
  finally show ?thesis .
qed

lemma slot_lower: "below (stage ! i) stage \<le> slot stage i"
  by (simp add: slot_def)

lemma slot_upper: "i < length stage \<Longrightarrow> slot stage i < below (Suc (stage ! i)) stage"
  using occ_take_less[of i stage] by (simp add: slot_def below_Suc)

lemma slot_less_length: "i < length stage \<Longrightarrow> slot stage i < length stage"
  using slot_upper[of i stage] below_le_length[of "Suc (stage ! i)" stage] by simp

lemma slot_less_diff:
  assumes "i < length stage" and "j < length stage" and "stage ! i < stage ! j"
  shows "slot stage i < slot stage j"
proof -
  have "slot stage i < below (Suc (stage ! i)) stage" using assms slot_upper by simp
  also have "\<dots> \<le> below (stage ! j) stage" using assms by (intro below_mono) simp
  also have "\<dots> \<le> slot stage j" by (rule slot_lower)
  finally show ?thesis .
qed

lemma slot_less_same:
  assumes "i < j" and "j < length stage" and "stage ! i = stage ! j"
  shows "slot stage i < slot stage j"
  using occ_take_strict[of i j stage] assms by (simp add: slot_def)

lemma slot_inj:
  assumes "i < length stage" and "j < length stage" and "slot stage i = slot stage j"
  shows "i = j"
proof (rule ccontr)
  assume ne: "i \<noteq> j"
  consider "stage ! i < stage ! j" | "stage ! j < stage ! i" | "stage ! i = stage ! j"
    by linarith
  then show False
  proof cases
    case 1 then show ?thesis using slot_less_diff[of i stage j] assms by simp
  next
    case 2 then show ?thesis using slot_less_diff[of j stage i] assms by simp
  next
    case 3
    then show ?thesis
      using slot_less_same[of i j stage] slot_less_same[of j i stage] assms ne
      by (cases "i < j") auto
  qed
qed

lemma slot_stage:
  assumes "i < length stage" and "below t stage \<le> slot stage i" and "slot stage i < below (Suc t) stage"
  shows "stage ! i = t"
proof (rule ccontr)
  assume ne: "stage ! i \<noteq> t"
  consider "stage ! i < t" | "t < stage ! i" using ne by linarith
  then show False
  proof cases
    case 1
    then have "below (Suc (stage ! i)) stage \<le> below t stage" by (intro below_mono) simp
    then show ?thesis using slot_upper[OF assms(1)] assms(2) by simp
  next
    case 2
    then have "below (Suc t) stage \<le> below (stage ! i) stage" by (intro below_mono) simp
    then show ?thesis using slot_lower[of stage i] assms(3) by simp
  qed
qed

lemma length_place_in2ex [simp]: "length (place_in2ex stage n k) = n"
  by (induction k) simp_all

lemma place_in2ex_slot:
  "k \<le> length stage \<Longrightarrow> i < k \<Longrightarrow> place_in2ex stage (length stage) k ! slot stage i = i"
proof (induction k)
  case 0 then show ?case by simp
next
  case (Suc k)
  show ?case
  proof (cases "i = k")
    case True
    then show ?thesis using Suc.prems slot_less_length[of k stage] by simp
  next
    case False
    then have ik: "i < k" using Suc.prems by simp
    have "slot stage k \<noteq> slot stage i"
      using slot_inj[of k stage i] ik Suc.prems by auto
    then show ?thesis using Suc.IH ik Suc.prems by simp
  qed
qed

lemma place_in_stage_char:
  assumes "length stage = n" and "\<forall>i<n. stage ! i \<le> ns"
  shows "place_in_stage n stage (map (\<lambda>t. below t stage) [0..<Suc ns], replicate n 0, replicate n 0)
       = Inr (map (\<lambda>t. below (Suc t) stage) [0..<Suc ns], map (slot stage) [0..<n],
              place_in2ex stage n n)"
proof -
  define P where "P k = map (\<lambda>t. below t stage + occ t (take k stage)) [0..<Suc ns]" for k
  define E where "E k = map (\<lambda>i. if i < k then slot stage i else 0) [0..<n]" for k
  define f where "f k = (P k, E k, place_in2ex stage n k)" for k
  have step: "(\<lambda>i (ptr, ex2in, in2ex).
        if stage ! i < length ptr \<and> i < length ex2in \<and> ptr ! (stage ! i) < length in2ex
        then Inr (ptr[stage ! i := Suc (ptr ! (stage ! i))],
                  ex2in[i := ptr ! (stage ! i)],
                  in2ex[ptr ! (stage ! i) := i])
        else Inl OutOfBounds) i (f i) = Inr (f (Suc i))" if "i < n" for i
  proof -
    have s: "stage ! i < Suc ns" using that assms by (simp add: less_Suc_eq_le)
    have pi: "P i ! (stage ! i) = slot stage i"
      using s by (simp add: P_def slot_def del: upt_Suc)
    have sl: "slot stage i < n" using slot_less_length[of i stage] that assms by simp
    have tk: "take (Suc i) stage = take i stage @ [stage ! i]"
      using that assms by (simp add: take_Suc_conv_app_nth)
    have P': "(P i)[stage ! i := Suc (slot stage i)] = P (Suc i)"
    proof (rule nth_equalityI)
      fix t assume "t < length ((P i)[stage ! i := Suc (slot stage i)])"
      then have t: "t < Suc ns" by (simp add: P_def)
      show "(P i)[stage ! i := Suc (slot stage i)] ! t = P (Suc i) ! t"
        using t by (auto simp: P_def nth_list_update tk slot_def simp del: upt_Suc)
    qed (simp add: P_def)
    have E': "(E i)[i := slot stage i] = E (Suc i)"
    proof (rule nth_equalityI)
      fix j assume "j < length ((E i)[i := slot stage i])"
      then have j: "j < n" by (simp add: E_def)
      show "(E i)[i := slot stage i] ! j = E (Suc i) ! j"
        using j that by (cases "j = i") (auto simp: E_def nth_list_update)
    qed (simp add: E_def)
    have len: "stage ! i < length (P i)" "i < length (E i)" using s that by (simp_all add: P_def E_def)
    show ?thesis using len pi sl P' E' by (simp add: f_def)
  qed
  have "for_loop n (\<lambda>i (ptr, ex2in, in2ex).
        if stage ! i < length ptr \<and> i < length ex2in \<and> ptr ! (stage ! i) < length in2ex
        then Inr (ptr[stage ! i := Suc (ptr ! (stage ! i))],
                  ex2in[i := ptr ! (stage ! i)],
                  in2ex[ptr ! (stage ! i) := i])
        else Inl OutOfBounds) (f 0) = Inr (f n)"
    by (rule for_loop_closed) (rule step)
  moreover have "f 0 = (map (\<lambda>t. below t stage) [0..<Suc ns], replicate n 0, replicate n 0)"
    by (simp add: f_def P_def E_def map_replicate_const del: upt_Suc)
  moreover have "f n = (map (\<lambda>t. below (Suc t) stage) [0..<Suc ns], map (slot stage) [0..<n],
              place_in2ex stage n n)"
    using assms by (simp add: f_def P_def E_def below_Suc del: upt_Suc)
  ultimately show ?thesis by (simp add: place_in_stage_def)
qed

lemma stage_maps_char:
  assumes "length stage = n"
  shows "stage_maps ns n stage =
         (if \<forall>i<n. stage ! i \<le> ns
          then Inr (map (\<lambda>s. occ s stage) [0..<Suc ns], map (\<lambda>t. below t stage) [0..<Suc ns],
                    map (slot stage) [0..<n], place_in2ex stage n n)
          else Inl OutOfBounds)"
proof (cases "\<forall>i<n. stage ! i \<le> ns")
  case False
  have "count_in_stage n stage (replicate (Suc ns) 0) = Inl OutOfBounds"
    using False assms by (simp add: count_in_stage_char less_Suc_eq_le del: upt_Suc replicate_Suc)
  then show ?thesis using False by (simp add: stage_maps_def)
next
  case True
  have c: "count_in_stage n stage (replicate (Suc ns) 0) = Inr (map (\<lambda>s. occ s stage) [0..<Suc ns])"
    using True assms by (simp add: count_in_stage_char less_Suc_eq_le del: upt_Suc replicate_Suc)
  have p: "set_stage_ptrs ns (map (\<lambda>s. occ s stage) [0..<Suc ns]) ptr
           = Inr (map (\<lambda>t. below t stage) [0..<Suc ns])" if "length ptr = Suc ns" for ptr
  proof -
    have "map (\<lambda>t. sum_list (take t (map (\<lambda>s. occ s stage) [0..<Suc ns]))) [0..<Suc ns]
          = map (\<lambda>t. below t stage) [0..<Suc ns]"
      by (rule map_cong[OF refl]) (simp add: sum_take_occ del: upt_Suc)
    then show ?thesis using that by (simp add: set_stage_ptrs_char del: upt_Suc)
  qed
  show ?thesis using True assms
    by (simp add: stage_maps_def c p place_in_stage_char del: upt_Suc replicate_Suc)
qed

lemma occ_take_filter:
  "i \<le> length stage \<Longrightarrow> occ t (take i stage) = length (filter (\<lambda>r. stage ! r = t) [0..<i])"
proof (induction i)
  case 0 show ?case by simp
next
  case (Suc i)
  then have "take (Suc i) stage = take i stage @ [stage ! i]"
    by (simp add: take_Suc_conv_app_nth)
  then show ?case using Suc by simp
qed

lemma length_stage_members: "length (stage_members stage t) = occ t stage"
  using occ_take_filter[of "length stage" stage t] by (simp add: stage_members_def)

lemma filter_upt_split:
  assumes "i < n" and "P i"
  shows "filter P [0..<n] = filter P [0..<i] @ i # filter P [Suc i..<n]"
proof -
  have "[0..<n] = [0..<i] @ i # [Suc i..<n]"
    using assms(1) by (metis less_imp_le_nat upt_add_eq_append upt_conv_Cons plus_nat.add_0 le0 le_add_diff_inverse)
  then show ?thesis using assms(2) by simp
qed

lemma stage_members_rank:
  assumes "i < length stage" and "stage ! i = t"
  shows "occ t (take i stage) < length (stage_members stage t)"
    and "stage_members stage t ! occ t (take i stage) = i"
proof -
  have sp: "stage_members stage t = filter (\<lambda>r. stage ! r = t) [0..<i] @ i #
              filter (\<lambda>r. stage ! r = t) [Suc i..<length stage]"
    unfolding stage_members_def using assms by (intro filter_upt_split) simp_all
  have oc: "occ t (take i stage) = length (filter (\<lambda>r. stage ! r = t) [0..<i])"
    using assms by (intro occ_take_filter) simp
  show "occ t (take i stage) < length (stage_members stage t)"
    by (simp add: sp oc)
  show "stage_members stage t ! occ t (take i stage) = i"
    by (simp add: sp oc nth_append)
qed

lemma distinct_stage_members: "distinct (stage_members stage t)"
  by (simp add: stage_members_def)

lemma stage_members_nth:
  assumes "k < occ t stage"
  shows "stage_members stage t ! k < length stage"
    and "stage ! (stage_members stage t ! k) = t"
    and "slot stage (stage_members stage t ! k) = below t stage + k"
proof -
  let ?i = "stage_members stage t ! k"
  have k: "k < length (stage_members stage t)" using assms by (simp add: length_stage_members)
  then have "?i \<in> set (stage_members stage t)" by simp
  then show i: "?i < length stage" and st: "stage ! ?i = t" by (simp_all add: stage_members_def)
  have "stage_members stage t ! occ t (take ?i stage) = stage_members stage t ! k"
    using stage_members_rank(2)[OF i st] by simp
  then have "occ t (take ?i stage) = k"
    using stage_members_rank(1)[OF i st] k distinct_stage_members[of stage t]
    by (simp add: nth_eq_iff_index_eq)
  then show "slot stage ?i = below t stage + k" using st by (simp add: slot_def)
qed

lemma place_in2ex_block:
  assumes "k < occ t stage"
  shows "place_in2ex stage (length stage) (length stage) ! (below t stage + k)
         = stage_members stage t ! k"
  using place_in2ex_slot[of "length stage" stage "stage_members stage t ! k"]
        stage_members_nth[OF assms] by simp

lemma slot_surj:
  assumes "j < length stage"
  shows "\<exists>i<length stage. slot stage i = j"
proof -
  let ?n = "length stage"
  have "inj_on (slot stage) {..<?n}"
    by (rule inj_onI) (use slot_inj in auto)
  moreover have "slot stage ` {..<?n} \<subseteq> {..<?n}"
    using slot_less_length by auto
  ultimately have "slot stage ` {..<?n} = {..<?n}"
    by (metis card_image card_subset_eq finite_lessThan)
  then have "j \<in> slot stage ` {..<?n}" using assms by simp
  then show ?thesis by auto
qed

lemma place_in2ex_inverse:
  assumes "j < length stage"
  shows "place_in2ex stage (length stage) (length stage) ! j < length stage"
    and "slot stage (place_in2ex stage (length stage) (length stage) ! j) = j"
proof -
  from slot_surj[OF assms] obtain i where i: "i < length stage" "slot stage i = j" by auto
  have "place_in2ex stage (length stage) (length stage) ! j = i"
    using place_in2ex_slot[of "length stage" stage i] i by simp
  then show "place_in2ex stage (length stage) (length stage) ! j < length stage"
    and "slot stage (place_in2ex stage (length stage) (length stage) ! j) = j"
    using i by simp_all
qed

section \<open>The index maps of a constructed core\<close>

lemma maps_wf_update [simp]:
  "maps_wf (core\<lparr>nodes := a\<rparr>) = maps_wf core"
  "maps_wf (core\<lparr>cdrlo := b\<rparr>) = maps_wf core"
  "maps_wf (core\<lparr>cdrup := b\<rparr>) = maps_wf core"
  "maps_wf (core\<lparr>cdclo := b\<rparr>) = maps_wf core"
  "maps_wf (core\<lparr>cdcup := b\<rparr>) = maps_wf core"
  "maps_wf (core\<lparr>cdobj := b\<rparr>) = maps_wf core"
  "maps_wf (core\<lparr>hasQdata := q\<rparr>) = maps_wf core"
  "maps_wf (core\<lparr>sqp := sq\<rparr>) = maps_wf core"
  by (simp_all add: maps_wf_def)

lemma make_core_node_shape:
  assumes "make_core_node m dclo dcup dobj drlo drup i core = Inr core'"
  shows "\<exists>node rlo rup clo cup obj.
           core' = core\<lparr>nodes := nodes core @ [node],
                     cdrlo := (cdrlo core)[i := rlo], cdrup := (cdrup core)[i := rup],
                     cdclo := (cdclo core)[i := clo], cdcup := (cdcup core)[i := cup],
                     cdobj := (cdobj core)[i := obj]\<rparr>"
proof -
  from assms obtain node rlo rup clo cup obj where
    "(if i < length (cdrlo core) \<and> i < length (cdrup core) \<and> i < length (cdclo core)
        \<and> i < length (cdcup core) \<and> i < length (cdobj core)
     then Inr (core\<lparr>nodes := nodes core @ [node],
                     cdrlo := (cdrlo core)[i := rlo], cdrup := (cdrup core)[i := rup],
                     cdclo := (cdclo core)[i := clo], cdcup := (cdcup core)[i := cup],
                     cdobj := (cdobj core)[i := obj]\<rparr>)
     else Inl OutOfBounds) = Inr core'"
    unfolding make_core_node_def rbind_eq_Inr by blast
  then have "core' = core\<lparr>nodes := nodes core @ [node],
                     cdrlo := (cdrlo core)[i := rlo], cdrup := (cdrup core)[i := rup],
                     cdclo := (cdclo core)[i := clo], cdcup := (cdcup core)[i := cup],
                     cdobj := (cdobj core)[i := obj]\<rparr>"
    by (simp split: if_splits)
  then show ?thesis by blast
qed

lemma make_core_node_frame:
  assumes "make_core_node m dclo dcup dobj drlo drup i core = Inr core'"
  shows "maps_wf core' = maps_wf core" and "nstag core' = nstag core"
    and "ncol core' = ncol core" and "nrow core' = nrow core"
    and "colStage core' = colStage core" and "rowStage core' = rowStage core"
    and "hasQdata core' = hasQdata core"
  using make_core_node_shape[OF assms] by auto

lemma core_nodes_loop_frame:
  assumes "for_loop n (make_core_node m dclo dcup dobj drlo drup) core0 = Inr core"
  shows "maps_wf core = maps_wf core0 \<and> nstag core = nstag core0 \<and> ncol core = ncol core0
         \<and> nrow core = nrow core0 \<and> colStage core = colStage core0
         \<and> rowStage core = rowStage core0 \<and> hasQdata core = hasQdata core0"
  by (rule for_loop_invariant[OF assms, where I = "\<lambda>i c. maps_wf c = maps_wf core0 \<and> nstag c = nstag core0 \<and> ncol c = ncol core0
         \<and> nrow c = nrow core0 \<and> colStage c = colStage core0
         \<and> rowStage c = rowStage core0 \<and> hasQdata c = hasQdata core0"])
     (auto dest: make_core_node_frame)

lemma gutsOfConstructor_maps:
  assumes "gutsOfConstructor nrow' ncol' nstag' cstag rstag m dclo dcup dobj drlo drup ints bins
           = Inr core"
  shows "maps_wf core" and "nstag core = nstag'" and "ncol core = ncol'" and "nrow core = nrow'"
    and "colStage core = take ncol' cstag" and "rowStage core = take nrow' rstag"
    and "ncol' \<le> length cstag" and "nrow' \<le> length rstag"
proof -
  from assms have len: "ncol' \<le> length cstag" "nrow' \<le> length rstag"
    by (auto simp: gutsOfConstructor_def split: if_splits)
  from assms len obtain nRow rowPtr rEx2In rIn2Ex nCol colPtr cEx2In cIn2Ex prev icsw where
    r: "stage_maps nstag' nrow' (take nrow' rstag) = Inr (nRow, rowPtr, rEx2In, rIn2Ex)" and
    c: "stage_maps nstag' ncol' (take ncol' cstag) = Inr (nCol, colPtr, cEx2In, cIn2Ex)" and
    l: "for_loop nstag' (make_core_node m dclo dcup dobj drlo drup)
         \<lparr> nrow = nrow', ncol = ncol', nstag = nstag',
           nColInStage = nCol, nRowInStage = nRow,
           stageColPtr = colPtr, stageRowPtr = rowPtr,
           colStage = take ncol' cstag, rowStage = take nrow' rstag,
           colEx2In = cEx2In, rowEx2In = rEx2In, colIn2Ex = cIn2Ex, rowIn2Ex = rIn2Ex,
           integerIndices = ints, binaryIndices = bins, intColsStagewise = icsw,
           cdrlo = replicate nstag' [], cdrup = replicate nstag' [],
           cdobj = replicate nstag' [], cdclo = replicate nstag' [],
           cdcup = replicate nstag' [], nodes = [], hasQdata = False, sqp = None \<rparr> = Inr core"
    by (auto simp: gutsOfConstructor_def rbind_eq_Inr split: if_splits prod.splits)
  have lr: "length (take nrow' rstag) = nrow'" and lc: "length (take ncol' cstag) = ncol'"
    using len by simp_all
  from r have r': "(\<forall>i<nrow'. take nrow' rstag ! i \<le> nstag')"
    "nRow = map (\<lambda>s. occ s (take nrow' rstag)) [0..<Suc nstag']"
    "rowPtr = map (\<lambda>t. below t (take nrow' rstag)) [0..<Suc nstag']"
    "rEx2In = map (slot (take nrow' rstag)) [0..<nrow']"
    "rIn2Ex = place_in2ex (take nrow' rstag) nrow' nrow'"
    unfolding stage_maps_char[OF lr] by (auto split: if_splits)
  from c have c': "(\<forall>i<ncol'. take ncol' cstag ! i \<le> nstag')"
    "nCol = map (\<lambda>s. occ s (take ncol' cstag)) [0..<Suc nstag']"
    "colPtr = map (\<lambda>t. below t (take ncol' cstag)) [0..<Suc nstag']"
    "cEx2In = map (slot (take ncol' cstag)) [0..<ncol']"
    "cIn2Ex = place_in2ex (take ncol' cstag) ncol' ncol'"
    unfolding stage_maps_char[OF lc] by (auto split: if_splits)
  note fr = core_nodes_loop_frame[OF l]
  show "maps_wf core" using fr r' c' len by (simp add: maps_wf_def del: upt_Suc)
  show "nstag core = nstag'" "ncol core = ncol'" "nrow core = nrow'"
    "colStage core = take ncol' cstag" "rowStage core = take nrow' rstag"
    using fr by simp_all
  show "ncol' \<le> length cstag" "nrow' \<le> length rstag" by (rule len)+
qed

lemma maps_wf_col_roundtrip:
  assumes "maps_wf core" and "c < ncol core"
  shows "colEx2In core ! c < ncol core" and "colIn2Ex core ! (colEx2In core ! c) = c"
proof -
  have l: "length (colStage core) = ncol core" using assms by (simp add: maps_wf_def)
  have e: "colEx2In core ! c = slot (colStage core) c" using assms by (simp add: maps_wf_def)
  show "colEx2In core ! c < ncol core" using slot_less_length[of c "colStage core"] assms l e by simp
  have "colIn2Ex core = place_in2ex (colStage core) (length (colStage core)) (length (colStage core))"
    using assms l by (simp add: maps_wf_def)
  then show "colIn2Ex core ! (colEx2In core ! c) = c"
    using place_in2ex_slot[of "length (colStage core)" "colStage core" c] assms l e by simp
qed

lemma maps_wf_col_block:
  assumes "maps_wf core" and "t < nstag core"
    and "stageColPtr core ! t \<le> i" and "i < stageColPtr core ! Suc t"
  shows "i < ncol core" and "colIn2Ex core ! i < ncol core"
    and "colStage core ! (colIn2Ex core ! i) = t"
proof -
  let ?st = "colStage core"
  have l: "length ?st = ncol core" using assms by (simp add: maps_wf_def)
  have p: "stageColPtr core ! t = below t ?st" "stageColPtr core ! Suc t = below (Suc t) ?st"
    using assms(1,2) by (simp_all add: maps_wf_def del: upt_Suc)
  have "below (Suc t) ?st \<le> length ?st" by (rule below_le_length)
  then show i: "i < ncol core" using assms p l by simp
  have in2: "colIn2Ex core = place_in2ex ?st (length ?st) (length ?st)"
    using assms l by (simp add: maps_wf_def)
  have j: "colIn2Ex core ! i < length ?st" "slot ?st (colIn2Ex core ! i) = i"
    using place_in2ex_inverse[of i ?st] i l in2 by simp_all
  show "colIn2Ex core ! i < ncol core" using j l by simp
  show "colStage core ! (colIn2Ex core ! i) = t"
    using slot_stage[of "colIn2Ex core ! i" ?st t] j assms p by simp
qed


lemma maps_wf_row_roundtrip:
  assumes "maps_wf core" and "r < nrow core"
  shows "rowEx2In core ! r < nrow core" and "rowIn2Ex core ! (rowEx2In core ! r) = r"
proof -
  have l: "length (rowStage core) = nrow core" using assms by (simp add: maps_wf_def)
  have e: "rowEx2In core ! r = slot (rowStage core) r" using assms by (simp add: maps_wf_def)
  show "rowEx2In core ! r < nrow core" using slot_less_length[of r "rowStage core"] assms l e by simp
  have "rowIn2Ex core = place_in2ex (rowStage core) (length (rowStage core)) (length (rowStage core))"
    using assms l by (simp add: maps_wf_def)
  then show "rowIn2Ex core ! (rowEx2In core ! r) = r"
    using place_in2ex_slot[of "length (rowStage core)" "rowStage core" r] assms l e by simp
qed

lemma maps_wf_row_block:
  assumes "maps_wf core" and "t < nstag core"
    and "stageRowPtr core ! t \<le> i" and "i < stageRowPtr core ! Suc t"
  shows "i < nrow core" and "rowIn2Ex core ! i < nrow core"
    and "rowStage core ! (rowIn2Ex core ! i) = t"
proof -
  let ?st = "rowStage core"
  have l: "length ?st = nrow core" using assms by (simp add: maps_wf_def)
  have p: "stageRowPtr core ! t = below t ?st" "stageRowPtr core ! Suc t = below (Suc t) ?st"
    using assms(1,2) by (simp_all add: maps_wf_def del: upt_Suc)
  have "below (Suc t) ?st \<le> length ?st" by (rule below_le_length)
  then show i: "i < nrow core" using assms p l by simp
  have in2: "rowIn2Ex core = place_in2ex ?st (length ?st) (length ?st)"
    using assms l by (simp add: maps_wf_def)
  have j: "rowIn2Ex core ! i < length ?st" "slot ?st (rowIn2Ex core ! i) = i"
    using place_in2ex_inverse[of i ?st] i l in2 by simp_all
  show "rowIn2Ex core ! i < nrow core" using j l by simp
  show "rowStage core ! (rowIn2Ex core ! i) = t"
    using slot_stage[of "rowIn2Ex core ! i" ?st t] j assms p by simp
qed

lemma maps_wf_lengths:
  assumes "maps_wf core"
  shows "length (colStage core) = ncol core" "length (rowStage core) = nrow core"
    "length (colEx2In core) = ncol core" "length (rowEx2In core) = nrow core"
    "length (colIn2Ex core) = ncol core" "length (rowIn2Ex core) = nrow core"
    "length (stageColPtr core) = Suc (nstag core)" "length (stageRowPtr core) = Suc (nstag core)"
    "length (nColInStage core) = Suc (nstag core)" "length (nRowInStage core) = Suc (nstag core)"
  using assms by (simp_all add: maps_wf_def del: upt_Suc)

section \<open>What the node constructor stores\<close>

lemma getters_array_at:
  "getColStage core = array_at (colStage core)"
  "getRowStage core = array_at (rowStage core)"
  "getColInternalIndex core = array_at (colEx2In core)"
  "getRowInternalIndex core = array_at (rowEx2In core)"
  "getColExternalIndex core = array_at (colIn2Ex core)"
  "getRowExternalIndex core = array_at (rowIn2Ex core)"
  by (rule ext, simp add: getColStage_def getRowStage_def getColInternalIndex_def
        getRowInternalIndex_def getColExternalIndex_def getRowExternalIndex_def)+

lemma copy_stage_entries_Inr:
  assumes "copy_stage_entries (array_at S) (array_at E) t cap d b0 = Inr b"
  shows "b = b0 @ stage_entries S E t (opt_entries d)"
    and "\<forall>p\<in>set (opt_entries d). fst p < length S"
    and "\<forall>p\<in>set (opt_entries d). S ! fst p = t \<longrightarrow> fst p < length E"
proof -
  have "b = b0 @ stage_entries S E t (opt_entries d)
        \<and> (\<forall>p\<in>set (opt_entries d). fst p < length S)
        \<and> (\<forall>p\<in>set (opt_entries d). S ! fst p = t \<longrightarrow> fst p < length E)"
  proof (cases d)
    case None
    then show ?thesis using assms
      by (simp add: copy_stage_entries_def opt_entries_def stage_entries_def)
  next
    case (Some cpv)
    let ?I = "\<lambda>j c. c = b0 @ stage_entries S E t (take j cpv)
                \<and> (\<forall>p\<in>set (take j cpv). fst p < length S)
                \<and> (\<forall>p\<in>set (take j cpv). S ! fst p = t \<longrightarrow> fst p < length E)"
    from assms Some have l: "for_loop (length cpv)
          (\<lambda>j b. rbind (array_at S (fst (cpv ! j))) (\<lambda>s.
             if s = t
             then (if length b < cap
                   then rbind (array_at E (fst (cpv ! j))) (\<lambda>k.
                          Inr (b @ [(k, snd (cpv ! j))]))
                   else Inl OutOfBounds)
             else Inr b)) b0 = Inr b"
      by (simp add: copy_stage_entries_def)
    have "?I (length cpv) b"
    proof (rule for_loop_invariant[OF l, where I = ?I])
      show "?I 0 b0" by (simp add: stage_entries_def)
    next
      fix j a c
      assume j: "j < length cpv" and I: "?I j a"
        and step: "rbind (array_at S (fst (cpv ! j))) (\<lambda>s.
             if s = t
             then (if length a < cap
                   then rbind (array_at E (fst (cpv ! j))) (\<lambda>k.
                          Inr (a @ [(k, snd (cpv ! j))]))
                   else Inl OutOfBounds)
             else Inr a) = Inr c"
      have tk: "take (Suc j) cpv = take j cpv @ [cpv ! j]"
        using j by (simp add: take_Suc_conv_app_nth)
      from step have s: "fst (cpv ! j) < length S"
        by (auto simp: rbind_eq_Inr array_at_eq_Inr)
      show "?I (Suc j) c"
      proof (cases "S ! fst (cpv ! j) = t")
        case True
        with step s have "fst (cpv ! j) < length E" "c = a @ [(E ! fst (cpv ! j), snd (cpv ! j))]"
          by (auto simp: rbind_eq_Inr array_at_eq_Inr split: if_splits)
        then show ?thesis using I s True by (simp add: tk stage_entries_def)
      next
        case False
        with step s have "c = a" by (simp split: if_splits)
        then show ?thesis using I s False by (simp add: tk stage_entries_def)
      qed
    qed
    then show ?thesis using Some by (simp add: opt_entries_def)
  qed
  then show "b = b0 @ stage_entries S E t (opt_entries d)"
    and "\<forall>p\<in>set (opt_entries d). fst p < length S"
    and "\<forall>p\<in>set (opt_entries d). S ! fst p = t \<longrightarrow> fst p < length E"
    by blast+
qed

lemma convert_indices_Inr:
  assumes "convert_indices core b0 = Inr b"
  shows "b = map (\<lambda>p. (colEx2In core ! fst p, snd p)) b0"
    and "\<forall>p\<in>set b0. fst p < length (colEx2In core)"
proof -
  let ?g = "\<lambda>p. (colEx2In core ! fst p, snd p)"
  let ?I = "\<lambda>j c. c = map ?g (take j b0) @ drop j b0
                \<and> (\<forall>p\<in>set (take j b0). fst p < length (colEx2In core))"
  from assms have l: "for_loop (length b0)
     (\<lambda>j b. rbind (array_at (colEx2In core) (fst (b ! j))) (\<lambda>k.
             Inr (b[j := (k, snd (b ! j))]))) b0 = Inr b"
    by (simp add: convert_indices_def getters_array_at)
  have "?I (length b0) b"
  proof (rule for_loop_invariant[OF l, where I = ?I])
    show "?I 0 b0" by simp
  next
    fix j a c
    assume j: "j < length b0" and I: "?I j a"
      and step: "rbind (array_at (colEx2In core) (fst (a ! j))) (\<lambda>k.
             Inr (a[j := (k, snd (a ! j))])) = Inr c"
    have tk: "take (Suc j) b0 = take j b0 @ [b0 ! j]"
      using j by (simp add: take_Suc_conv_app_nth)
    have dr: "drop j b0 = b0 ! j # drop (Suc j) b0"
      using j by (simp add: Cons_nth_drop_Suc)
    have aj: "a ! j = b0 ! j" using I j by (simp add: nth_append dr)
    from step aj have r: "fst (b0 ! j) < length (colEx2In core)" and c: "c = a[j := ?g (b0 ! j)]"
      by (auto simp: rbind_eq_Inr array_at_eq_Inr)
    have "a[j := ?g (b0 ! j)] = map ?g (take j b0) @ ?g (b0 ! j) # drop (Suc j) b0"
      using I j by (simp add: dr list_update_append)
    then show "?I (Suc j) c" using c I r by (simp add: tk)
  qed
  then show "b = map ?g b0" and "\<forall>p\<in>set b0. fst p < length (colEx2In core)" by simp_all
qed

lemma copy_matrix_rows_Inr:
  assumes "copy_matrix_rows core m rb nr cap ([], replicate (nr + 6) 0, 0) = Inr (b, st, i)"
  shows "i = nr"
    and "\<forall>k<nr. rb + k < length (rowIn2Ex core) \<and> rowIn2Ex core ! (rb + k) < length m"
    and "b = concat (map (\<lambda>k. m ! (rowIn2Ex core ! (rb + k))) [0..<nr])"
    and "st = map (\<lambda>k. if k \<le> nr
                        then length (concat (map (\<lambda>k. m ! (rowIn2Ex core ! (rb + k))) [0..<k]))
                        else 0) [0..<nr + 6]"
proof -
  let ?row = "\<lambda>k. m ! (rowIn2Ex core ! (rb + k))"
  let ?I = "\<lambda>j s. case s of (c, st', i') \<Rightarrow>
              i' = j \<and> (\<forall>k<j. rb + k < length (rowIn2Ex core) \<and> rowIn2Ex core ! (rb + k) < length m)
              \<and> c = concat (map ?row [0..<j])
              \<and> st' = map (\<lambda>k. if k \<le> j then length (concat (map ?row [0..<k])) else 0) [0..<nr + 6]"
  from assms have l: "for_loop nr
     (\<lambda>i (b, st, i_start).
        rbind (array_at (rowIn2Ex core) (rb + i)) (\<lambda>isrc.
        rbind (array_at m isrc) (\<lambda>row.
          if length row \<noteq> 0
          then (if length b + length row \<le> cap
                then Inr (b @ row, st[Suc i_start := length b + length row], Suc i_start)
                else Inl OutOfBounds)
          else Inr (b, st[Suc i_start := length b], Suc i_start)))) ([], replicate (nr + 6) 0, 0)
      = Inr (b, st, i)"
    by (simp add: copy_matrix_rows_def getters_array_at)
  have "?I nr (b, st, i)"
  proof (rule for_loop_invariant[OF l, where I = ?I])
    show "?I 0 ([], replicate (nr + 6) 0, 0)"
      by (auto intro!: nth_equalityI)
  next
    fix j a c
    assume j: "j < nr" and I: "?I j a"
      and step: "(\<lambda>i (b, st, i_start).
        rbind (array_at (rowIn2Ex core) (rb + i)) (\<lambda>isrc.
        rbind (array_at m isrc) (\<lambda>row.
          if length row \<noteq> 0
          then (if length b + length row \<le> cap
                then Inr (b @ row, st[Suc i_start := length b + length row], Suc i_start)
                else Inl OutOfBounds)
          else Inr (b, st[Suc i_start := length b], Suc i_start)))) j a = Inr c"
    obtain ab ast ai where a: "a = (ab, ast, ai)" by (cases a) auto
    from I a have ai: "ai = j"
      and rng: "\<forall>k<j. rb + k < length (rowIn2Ex core) \<and> rowIn2Ex core ! (rb + k) < length m"
      and ab: "ab = concat (map ?row [0..<j])"
      and ast: "ast = map (\<lambda>k. if k \<le> j then length (concat (map ?row [0..<k])) else 0) [0..<nr + 6]"
      by simp_all
    from step a have r1: "rb + j < length (rowIn2Ex core)" and r2: "rowIn2Ex core ! (rb + j) < length m"
      by (auto simp: rbind_eq_Inr array_at_eq_Inr)
    from step a r1 r2 ai have c: "c = (ab @ ?row j, ast[Suc j := length ab + length (?row j)], Suc j)"
      by (cases "?row j = []") (auto split: if_splits)
    have st': "ast[Suc j := length ab + length (?row j)]
               = map (\<lambda>k. if k \<le> Suc j then length (concat (map ?row [0..<k])) else 0) [0..<nr + 6]"
    proof (rule nth_equalityI)
      fix k assume "k < length (ast[Suc j := length ab + length (?row j)])"
      then have k: "k < nr + 6" by (simp add: ast)
      show "ast[Suc j := length ab + length (?row j)] ! k
            = map (\<lambda>k. if k \<le> Suc j then length (concat (map ?row [0..<k])) else 0) [0..<nr + 6] ! k"
        using k by (cases "k = Suc j") (auto simp: ast ab nth_list_update)
    qed (simp add: ast)
    show "?I (Suc j) c"
      using c rng r1 r2 st' ab by (auto simp: less_Suc_eq)
  qed
  then show "i = nr"
    and "\<forall>k<nr. rb + k < length (rowIn2Ex core) \<and> rowIn2Ex core ! (rb + k) < length m"
    and "b = concat (map ?row [0..<nr])"
    and "st = map (\<lambda>k. if k \<le> nr then length (concat (map ?row [0..<k])) else 0) [0..<nr + 6]"
    by simp_all
qed

lemma concat_map_upt_take:
  "k \<le> n \<Longrightarrow> concat (take k (map f [0..<n])) = concat (map f [0..<k])"
  by (simp add: take_map)

lemma SmiNodeData_ctor_Inr:
  assumes "SmiNodeData_ctor t core matrix dclo dcup dobj drlo drup = Inr node"
  shows "node_layout node (node_rows core t matrix)
           (stage_entries (colStage core) (colEx2In core) t (opt_entries dclo))
           (stage_entries (colStage core) (colEx2In core) t (opt_entries dcup))
           (stage_entries (colStage core) (colEx2In core) t (opt_entries dobj))
           (stage_entries (rowStage core) (rowEx2In core) t (opt_entries drlo))
           (stage_entries (rowStage core) (rowEx2In core) t (opt_entries drup))"
    and "stg node = t" and "\<not> isCoreNode node"
    and "t < length (nRowInStage core)" and "t < length (nColInStage core)"
    and "t < length (stageRowPtr core)" and "t < length (stageColPtr core)"
    and "nd_nrow node = nRowInStage core ! t" and "nd_ncol node = nColInStage core ! t"
    and "rowbeg node = stageRowPtr core ! t" and "colbeg node = stageColPtr core ! t"
    and "has_matrix node \<longleftrightarrow> 0 < getNumElements (opt_entries matrix)"
    and "has_matrix node \<longrightarrow> length (node_rows core t matrix) = nd_nrow node"
    and "\<not> has_matrix node \<longrightarrow> node_rows core t matrix = []"
    and "length (strt node) = nd_nrow node + 6"
    and "dRowMap node = []"
    and "\<forall>p\<in>set (opt_entries dclo @ opt_entries dcup @ opt_entries dobj).
           fst p < length (colStage core)
           \<and> (colStage core ! fst p = t \<longrightarrow> fst p < length (colEx2In core))"
    and "\<forall>p\<in>set (opt_entries drlo @ opt_entries drup).
           fst p < length (rowStage core)
           \<and> (rowStage core ! fst p = t \<longrightarrow> fst p < length (rowEx2In core))"
    and "\<forall>k<length (node_rows core t matrix).
           \<forall>q\<in>set (opt_entries matrix ! (rowIn2Ex core ! (stageRowPtr core ! t + k))).
             fst q < length (colEx2In core)"
proof -
  let ?e1 = "stage_entries (colStage core) (colEx2In core) t (opt_entries dclo)"
  let ?e2 = "stage_entries (colStage core) (colEx2In core) t (opt_entries dcup)"
  let ?e3 = "stage_entries (colStage core) (colEx2In core) t (opt_entries dobj)"
  let ?e4 = "stage_entries (rowStage core) (rowEx2In core) t (opt_entries drlo)"
  let ?e5 = "stage_entries (rowStage core) (rowEx2In core) t (opt_entries drup)"
  let ?nr = "nRowInStage core ! t"
  let ?rb = "stageRowPtr core ! t"
  let ?cap = "(case matrix of None \<Rightarrow> 0 | Some m \<Rightarrow> getNumElements m)
               + numElementsOpt dclo + numElementsOpt dcup + numElementsOpt dobj
               + numElementsOpt drlo + numElementsOpt drup"
  let ?strt0 = "replicate (6 + ?nr) (0::nat)"
  from assms have t: "t < length (nRowInStage core)" "t < length (nColInStage core)"
    "t < length (stageRowPtr core)" "t < length (stageColPtr core)"
    by (auto simp: SmiNodeData_ctor_def rbind_eq_Inr getNumRows_def getNumCols_def
          getRowStart_def getColStart_def array_at_eq_Inr)
  from assms t obtain b0 st0 i0 b1 b2 b3 b4 b5 where
    m: "(case matrix of
              None \<Rightarrow> Inr ([], ?strt0, 0)
            | Some m \<Rightarrow>
                if getNumElements m > 0
                then rbind (copy_matrix_rows core m ?rb ?nr ?cap ([], ?strt0, 0)) (\<lambda>(b, st, i).
                     rbind (convert_indices core b) (\<lambda>b'. Inr (b', st, i)))
                else Inr ([], ?strt0, 0)) = Inr (b0, st0, i0)"
    and c1: "copy_stage_entries (array_at (colStage core)) (array_at (colEx2In core)) t ?cap dclo b0 = Inr b1"
    and c2: "copy_stage_entries (array_at (colStage core)) (array_at (colEx2In core)) t ?cap dcup b1 = Inr b2"
    and c3: "copy_stage_entries (array_at (colStage core)) (array_at (colEx2In core)) t ?cap dobj b2 = Inr b3"
    and c4: "copy_stage_entries (array_at (rowStage core)) (array_at (rowEx2In core)) t ?cap drlo b3 = Inr b4"
    and c5: "copy_stage_entries (array_at (rowStage core)) (array_at (rowEx2In core)) t ?cap drup b4 = Inr b5"
    and n: "node = \<lparr> stg = t, isCoreNode = False, nd_nrow = ?nr, nd_ncol = nColInStage core ! t,
           rowbeg = ?rb, colbeg = stageColPtr core ! t, nels = ?cap, nstrt = (?nr + 1) + 5,
           buf = b5,
           strt = st0[i0 + 1 := length b1, i0 + 2 := length b2, i0 + 3 := length b3,
                      i0 + 4 := length b4, i0 + 5 := length b5],
           has_matrix = (case matrix of None \<Rightarrow> False | Some m \<Rightarrow> getNumElements m > 0),
           mat_strt = 0,
           clo_strt = i0, cup_strt = i0 + 1, obj_strt = i0 + 2,
           rlo_strt = i0 + 3, rup_strt = i0 + 4,
           nd_hasQdata = False, nqdata = None, dRowMap = [] \<rparr>"
    by (auto simp: SmiNodeData_ctor_def rbind_eq_Inr getNumRows_def getNumCols_def
          getRowStart_def getColStart_def Let_def getters_array_at split: prod.splits)
  note e1 = copy_stage_entries_Inr(1)[OF c1]
  note e2 = copy_stage_entries_Inr(1)[OF c2]
  note e3 = copy_stage_entries_Inr(1)[OF c3]
  note e4 = copy_stage_entries_Inr(1)[OF c4]
  note e5 = copy_stage_entries_Inr(1)[OF c5]
  have rows: "b0 = concat (node_rows core t matrix) \<and> i0 = length (node_rows core t matrix)
     \<and> length st0 = ?nr + 6
     \<and> (\<forall>k\<le>length (node_rows core t matrix). st0 ! k = length (concat (take k (node_rows core t matrix))))
     \<and> (0 < getNumElements (opt_entries matrix) \<longrightarrow> length (node_rows core t matrix) = ?nr)
     \<and> (\<not> 0 < getNumElements (opt_entries matrix) \<longrightarrow> node_rows core t matrix = [])
     \<and> (\<forall>k<length (node_rows core t matrix).
           \<forall>q\<in>set (opt_entries matrix ! (rowIn2Ex core ! (stageRowPtr core ! t + k))).
             fst q < length (colEx2In core))"
  proof (cases "\<exists>mm. matrix = Some mm \<and> getNumElements mm > 0")
    case False
    then have "b0 = []" "st0 = ?strt0" "i0 = 0" "node_rows core t matrix = []"
      "\<not> 0 < getNumElements (opt_entries matrix)"
      using m by (auto simp: node_rows_def opt_entries_def getNumElements_def split: option.splits if_splits)
    then show ?thesis by simp
  next
    case True
    then obtain mm where mm: "matrix = Some mm" "getNumElements mm > 0" by auto
    with m obtain b where
      cm: "copy_matrix_rows core mm ?rb ?nr ?cap ([], replicate (?nr + 6) 0, 0) = Inr (b, st0, i0)"
      and ci: "convert_indices core b = Inr b0"
      by (auto simp: rbind_eq_Inr add.commute split: prod.splits)
    note r = copy_matrix_rows_Inr[OF cm]
    note v = convert_indices_Inr[OF ci]
    let ?g = "\<lambda>p. (colEx2In core ! fst p, snd p)"
    have nr: "node_rows core t matrix = map (\<lambda>k. map ?g (mm ! (rowIn2Ex core ! (?rb + k)))) [0..<?nr]"
      using mm by (simp add: node_rows_def)
    have cc: "concat (map (\<lambda>k. map ?g (mm ! (rowIn2Ex core ! (?rb + k)))) [0..<k])
              = map ?g (concat (map (\<lambda>k. mm ! (rowIn2Ex core ! (?rb + k))) [0..<k]))" for k
      by (simp add: map_concat comp_def)
    have b0: "b0 = concat (node_rows core t matrix)"
      using v(1) r(3) by (simp add: nr cc)
    have st: "st0 ! k = length (concat (take k (node_rows core t matrix)))" if "k \<le> ?nr" for k
    proof -
      have "concat (take k (node_rows core t matrix))
            = map ?g (concat (map (\<lambda>k. mm ! (rowIn2Ex core ! (?rb + k))) [0..<k]))"
        using that by (simp add: nr take_map cc)
      moreover have "st0 ! k = length (concat (map (\<lambda>k. mm ! (rowIn2Ex core ! (?rb + k))) [0..<k]))"
        using that by (simp add: r(4) del: upt_Suc)
      ultimately show ?thesis by simp
    qed
    have len: "length (node_rows core t matrix) = ?nr" by (simp add: nr)
    have lst: "length st0 = ?nr + 6" by (simp add: r(4))
    have pos: "0 < getNumElements (opt_entries matrix)" using mm by (simp add: opt_entries_def)
    have rng: "\<forall>k<length (node_rows core t matrix).
           \<forall>q\<in>set (opt_entries matrix ! (rowIn2Ex core ! (stageRowPtr core ! t + k))).
             fst q < length (colEx2In core)"
    proof (intro allI impI ballI)
      fix k q assume k: "k < length (node_rows core t matrix)"
        and q: "q \<in> set (opt_entries matrix ! (rowIn2Ex core ! (?rb + k)))"
      have "q \<in> set b" using q k len mm by (auto simp: r(3) opt_entries_def)
      then show "fst q < length (colEx2In core)" using v(2) by simp
    qed
    show ?thesis using b0 st r(1) len lst pos rng by simp
  qed
  let ?rows = "node_rows core t matrix"
  have L: "length ?rows + 6 \<le> ?nr + 6"
    using rows by (cases "0 < getNumElements (opt_entries matrix)") auto
  have bufs: "b1 = concat ?rows @ ?e1" "b2 = concat ?rows @ ?e1 @ ?e2"
    "b3 = concat ?rows @ ?e1 @ ?e2 @ ?e3" "b4 = concat ?rows @ ?e1 @ ?e2 @ ?e3 @ ?e4"
    "b5 = concat ?rows @ ?e1 @ ?e2 @ ?e3 @ ?e4 @ ?e5"
    using rows e1 e2 e3 e4 e5 by simp_all
  show "node_layout node ?rows ?e1 ?e2 ?e3 ?e4 ?e5"
    unfolding node_layout_def using rows L bufs
    by (simp add: n nth_list_update)
  show "stg node = t" "\<not> isCoreNode node" "nd_nrow node = ?nr" "nd_ncol node = nColInStage core ! t"
    "rowbeg node = ?rb" "colbeg node = stageColPtr core ! t" "dRowMap node = []"
    by (simp_all add: n)
  show "t < length (nRowInStage core)" "t < length (nColInStage core)"
    "t < length (stageRowPtr core)" "t < length (stageColPtr core)" by (rule t)+
  show hm: "has_matrix node \<longleftrightarrow> 0 < getNumElements (opt_entries matrix)"
    by (cases matrix) (simp_all add: n opt_entries_def getNumElements_def)
  show "has_matrix node \<longrightarrow> length ?rows = nd_nrow node"
    using rows hm by (simp add: n)
  show "\<not> has_matrix node \<longrightarrow> ?rows = []" using rows hm by simp
  show "length (strt node) = nd_nrow node + 6" using rows by (simp add: n)
  show "\<forall>p\<in>set (opt_entries dclo @ opt_entries dcup @ opt_entries dobj).
           fst p < length (colStage core)
           \<and> (colStage core ! fst p = t \<longrightarrow> fst p < length (colEx2In core))"
    using copy_stage_entries_Inr(2,3)[OF c1] copy_stage_entries_Inr(2,3)[OF c2]
      copy_stage_entries_Inr(2,3)[OF c3] by auto
  show "\<forall>p\<in>set (opt_entries drlo @ opt_entries drup).
           fst p < length (rowStage core)
           \<and> (rowStage core ! fst p = t \<longrightarrow> fst p < length (rowEx2In core))"
    using copy_stage_entries_Inr(2,3)[OF c4] copy_stage_entries_Inr(2,3)[OF c5] by auto
  show "\<forall>k<length (node_rows core t matrix).
           \<forall>q\<in>set (opt_entries matrix ! (rowIn2Ex core ! (stageRowPtr core ! t + k))).
             fst q < length (colEx2In core)"
    using rows by blast
qed

lemma getSegment_eq:
  assumes "Suc i < length (strt node)" and "strt node ! i = length pre"
    and "strt node ! Suc i = length pre + length seg" and "buf node = pre @ seg @ post"
  shows "getSegment node i = Inr seg" and "getLength node i = Inr (length seg)"
  using assms by (auto simp: getSegment_def getLength_def)

lemma node_layout_segments:
  assumes "node_layout node rows e1 e2 e3 e4 e5"
  shows "getColLower node = Inr e1" and "getColUpper node = Inr e2"
    and "getObjective node = Inr e3" and "getRowLower node = Inr e4"
    and "getRowUpper node = Inr e5"
proof -
  from assms have b: "buf node = concat rows @ e1 @ e2 @ e3 @ e4 @ e5"
    and l: "length rows + 6 \<le> length (strt node)"
    and s0: "strt node ! length rows = length (concat rows)"
    and s1: "strt node ! Suc (length rows) = length (concat rows) + length e1"
    and s2: "strt node ! Suc (Suc (length rows)) = length (concat rows) + length e1 + length e2"
    and s3: "strt node ! Suc (Suc (Suc (length rows)))
             = length (concat rows) + length e1 + length e2 + length e3"
    and s4: "strt node ! Suc (Suc (Suc (Suc (length rows))))
             = length (concat rows) + length e1 + length e2 + length e3 + length e4"
    and s5: "strt node ! Suc (Suc (Suc (Suc (Suc (length rows)))))
             = length (concat rows) + length e1 + length e2 + length e3 + length e4 + length e5"
    and i: "clo_strt node = length rows" "cup_strt node = Suc (length rows)"
      "obj_strt node = Suc (Suc (length rows))" "rlo_strt node = Suc (Suc (Suc (length rows)))"
      "rup_strt node = Suc (Suc (Suc (Suc (length rows))))"
    by (simp_all add: node_layout_def eval_nat_numeral)
  show "getColLower node = Inr e1"
    unfolding getColLower_def i
    by (rule getSegment_eq(1)[where pre = "concat rows" and post = "e2 @ e3 @ e4 @ e5"])
       (use l s0 s1 b in simp_all)
  show "getColUpper node = Inr e2"
    unfolding getColUpper_def i
    by (rule getSegment_eq(1)[where pre = "concat rows @ e1" and post = "e3 @ e4 @ e5"])
       (use l s1 s2 b in simp_all)
  show "getObjective node = Inr e3"
    unfolding getObjective_def i
    by (rule getSegment_eq(1)[where pre = "concat rows @ e1 @ e2" and post = "e4 @ e5"])
       (use l s2 s3 b in simp_all)
  show "getRowLower node = Inr e4"
    unfolding getRowLower_def i
    by (rule getSegment_eq(1)[where pre = "concat rows @ e1 @ e2 @ e3" and post = "e5"])
       (use l s3 s4 b in simp_all)
  show "getRowUpper node = Inr e5"
    unfolding getRowUpper_def i
    by (rule getSegment_eq(1)[where pre = "concat rows @ e1 @ e2 @ e3 @ e4" and post = "[]"])
       (use l s4 s5 b in simp_all)
qed

lemma concat_take_Suc:
  "k < length rows \<Longrightarrow> concat (take (Suc k) rows) = concat (take k rows) @ rows ! k"
  by (simp add: take_Suc_conv_app_nth)

lemma concat_split_nth:
  "k < length rows \<Longrightarrow> concat rows = concat (take k rows) @ rows ! k @ concat (drop (Suc k) rows)"
  by (metis append_Cons append_Nil append_take_drop_id concat.simps(2) concat_append Cons_nth_drop_Suc)

lemma node_layout_row:
  assumes "node_layout node rows e1 e2 e3 e4 e5" and "has_matrix node" and "k < length rows"
  shows "getRow node (rowbeg node + k) = Inr (rows ! k)"
    and "getRowLength node (rowbeg node + k) = Inr (length (rows ! k))"
proof -
  from assms have b: "buf node = concat rows @ e1 @ e2 @ e3 @ e4 @ e5"
    and l: "length rows + 6 \<le> length (strt node)"
    and s: "\<forall>k\<le>length rows. strt node ! k = length (concat (take k rows))"
    and m: "mat_strt node = 0"
    by (simp_all add: node_layout_def)
  have sk: "strt node ! k = length (concat (take k rows))"
    and sk1: "strt node ! Suc k = length (concat (take k rows)) + length (rows ! k)"
    using s assms(3) by (simp_all add: concat_take_Suc)
  have b': "buf node = concat (take k rows) @ rows ! k
                       @ (concat (drop (Suc k) rows) @ e1 @ e2 @ e3 @ e4 @ e5)"
    using b concat_split_nth[OF assms(3)] by simp
  have "getSegment node k = Inr (rows ! k)" "getLength node k = Inr (length (rows ! k))"
    by (rule getSegment_eq[where pre = "concat (take k rows)"
          and post = "concat (drop (Suc k) rows) @ e1 @ e2 @ e3 @ e4 @ e5"];
        use l sk sk1 b' assms(3) in simp)+
  then show "getRow node (rowbeg node + k) = Inr (rows ! k)"
    and "getRowLength node (rowbeg node + k) = Inr (length (rows ! k))"
    using assms(2) m by (simp_all add: getRow_def getRowLength_def)
qed

lemma maps_wf_stage_rows:
  assumes "maps_wf core" and "t < length (nRowInStage core)"
  shows "map (\<lambda>k. rowIn2Ex core ! (stageRowPtr core ! t + k)) [0..<nRowInStage core ! t]
         = stage_members (rowStage core) t"
proof -
  let ?st = "rowStage core"
  from assms have t: "t < Suc (nstag core)" by (simp add: maps_wf_def del: upt_Suc)
  have n: "nRowInStage core ! t = occ t ?st" and p: "stageRowPtr core ! t = below t ?st"
    using assms(1) t by (simp_all add: maps_wf_def del: upt_Suc)
  have i: "rowIn2Ex core = place_in2ex ?st (length ?st) (length ?st)"
    using assms(1) by (simp add: maps_wf_def)
  show ?thesis
    by (rule nth_equalityI) (simp_all add: n p i length_stage_members place_in2ex_block)
qed

lemma maps_wf_stage_cols:
  assumes "maps_wf core" and "t < length (nColInStage core)"
  shows "map (\<lambda>k. colIn2Ex core ! (stageColPtr core ! t + k)) [0..<nColInStage core ! t]
         = stage_members (colStage core) t"
proof -
  let ?st = "colStage core"
  from assms have t: "t < Suc (nstag core)" by (simp add: maps_wf_def del: upt_Suc)
  have n: "nColInStage core ! t = occ t ?st" and p: "stageColPtr core ! t = below t ?st"
    using assms(1) t by (simp_all add: maps_wf_def del: upt_Suc)
  have i: "colIn2Ex core = place_in2ex ?st (length ?st) (length ?st)"
    using assms(1) by (simp add: maps_wf_def)
  show ?thesis
    by (rule nth_equalityI) (simp_all add: n p i length_stage_members place_in2ex_block)
qed

section \<open>The start offsets of a node\<close>

lemma length_concat_take_mono:
  "i \<le> j \<Longrightarrow> length (concat (take i rows)) \<le> length (concat (take j rows))"
proof -
  assume "i \<le> j"
  then have "take j rows = take i rows @ take (j - i) (drop i rows)"
    by (metis le_add_diff_inverse take_add)
  then show ?thesis by simp
qed

lemma node_layout_offsets:
  assumes "node_layout node rows e1 e2 e3 e4 e5"
  shows "strt node ! 0 = 0"
    and "sorted (take (length rows + 6) (strt node))"
    and "strt node ! (length rows + 5) = length (buf node)"
    and "rup_strt node = length rows + 4"
    and "length rows + 6 \<le> length (strt node)"
proof -
  from assms have b: "buf node = concat rows @ e1 @ e2 @ e3 @ e4 @ e5"
    and l: "length rows + 6 \<le> length (strt node)"
    and s: "\<forall>k\<le>length rows. strt node ! k = length (concat (take k rows))"
    and s1: "strt node ! (length rows + 1) = length (concat rows) + length e1"
    and s2: "strt node ! (length rows + 2) = length (concat rows) + length e1 + length e2"
    and s3: "strt node ! (length rows + 3)
             = length (concat rows) + length e1 + length e2 + length e3"
    and s4: "strt node ! (length rows + 4)
             = length (concat rows) + length e1 + length e2 + length e3 + length e4"
    and s5: "strt node ! (length rows + 5)
             = length (concat rows) + length e1 + length e2 + length e3 + length e4 + length e5"
    and r: "rup_strt node = length rows + 4"
    by (simp_all add: node_layout_def)
  show "strt node ! 0 = 0" using s by simp
  show "strt node ! (length rows + 5) = length (buf node)" using s5 b by simp
  show "rup_strt node = length rows + 4" by (rule r)
  show "length rows + 6 \<le> length (strt node)" by (rule l)
  have step: "strt node ! i \<le> strt node ! Suc i" if i5: "i < length rows + 5" for i
  proof -
    consider "i < length rows" | "i = length rows" | "i = length rows + 1" | "i = length rows + 2"
      | "i = length rows + 3" | "i = length rows + 4"
      using i5 by linarith
    then show ?thesis
    proof cases
      case 1
      then show ?thesis using s length_concat_take_mono[of i "Suc i" rows] by simp
    next
      case 2 then show ?thesis using s s1 by simp
    next
      case 3 then show ?thesis using s1 s2 by (simp add: eval_nat_numeral)
    next
      case 4 then show ?thesis using s2 s3 by (simp add: eval_nat_numeral)
    next
      case 5 then show ?thesis using s3 s4 by (simp add: eval_nat_numeral)
    next
      case 6 then show ?thesis using s4 s5 by (simp add: eval_nat_numeral)
    qed
  qed
  show "sorted (take (length rows + 6) (strt node))"
    unfolding sorted_iff_nth_Suc using l step by simp
qed

text \<open>Consecutive slices between sorted offsets rebuild the buffer.\<close>

lemma concat_slices:
  assumes "n < length st" and "st ! 0 = 0" and "sorted (take (Suc n) st)"
    and "st ! n \<le> length b"
  shows "concat (map (\<lambda>i. take (st ! Suc i - st ! i) (drop (st ! i) b)) [0..<n]) = take (st ! n) b"
  using assms
proof (induction n)
  case 0 then show ?case by simp
next
  case (Suc n)
  have le: "st ! n \<le> st ! Suc n"
    using Suc.prems(1,3) sorted_iff_nth_Suc[of "take (Suc (Suc n)) st"] by auto
  have srt: "sorted (take (Suc n) st)"
  proof -
    have "take (Suc n) st = take (Suc n) (take (Suc (Suc n)) st)" by simp
    then show ?thesis using Suc.prems(3) sorted_wrt_take by metis
  qed
  have IH: "concat (map (\<lambda>i. take (st ! Suc i - st ! i) (drop (st ! i) b)) [0..<n]) = take (st ! n) b"
    using Suc.IH Suc.prems le srt by simp
  have "take (st ! n) b @ take (st ! Suc n - st ! n) (drop (st ! n) b) = take (st ! Suc n) b"
    using le by (metis le_add_diff_inverse take_add)
  then show ?case using IH by simp
qed

section \<open>Scattering and combining on the entries of a stage\<close>

lemma Process_char:
  assumes "\<forall>p\<in>set cpv. o1 \<le> fst p \<and> fst p - o1 < length d"
  shows "Process d o1 cpv
         = Inr (map (\<lambda>j. case map_of (rev cpv) (o1 + j) of Some v \<Rightarrow> v | None \<Rightarrow> d ! j)
                  [0..<length d])"
proof -
  define f where "f k = map (\<lambda>j. case map_of (rev (take k cpv)) (o1 + j) of Some v \<Rightarrow> v | None \<Rightarrow> d ! j)
                  [0..<length d]" for k
  have step: "(if o1 \<le> fst (cpv ! k) \<and> fst (cpv ! k) - o1 < length (f k)
             then Inr ((f k)[fst (cpv ! k) - o1 := snd (cpv ! k)])
             else Inl OutOfBounds) = Inr (f (Suc k))" if k: "k < length cpv" for k
  proof -
    have r: "o1 \<le> fst (cpv ! k)" "fst (cpv ! k) - o1 < length d"
      using assms k by (simp_all add: nth_mem)
    have tk: "take (Suc k) cpv = take k cpv @ [cpv ! k]"
      using k by (simp add: take_Suc_conv_app_nth)
    have "(f k)[fst (cpv ! k) - o1 := snd (cpv ! k)] = f (Suc k)"
    proof (rule nth_equalityI)
      fix j assume "j < length ((f k)[fst (cpv ! k) - o1 := snd (cpv ! k)])"
      then have j: "j < length d" by (simp add: f_def)
      have eq: "(o1 + j = fst (cpv ! k)) = (j = fst (cpv ! k) - o1)" using r by auto
      show "(f k)[fst (cpv ! k) - o1 := snd (cpv ! k)] ! j = f (Suc k) ! j"
      proof (cases "j = fst (cpv ! k) - o1")
        case True
        then have "o1 + j = fst (cpv ! k)" using eq by simp
        then show ?thesis using j True
          by (cases "cpv ! k") (simp add: f_def tk)
      next
        case False
        then have "o1 + j \<noteq> fst (cpv ! k)" using eq by simp
        then show ?thesis using j False
          by (cases "cpv ! k") (simp add: f_def tk)
      qed
    qed (simp add: f_def)
    then show ?thesis using r by (simp add: f_def)
  qed
  have "for_loop (length cpv)
     (\<lambda>j d. if o1 \<le> fst (cpv ! j) \<and> fst (cpv ! j) - o1 < length d
             then Inr (d[fst (cpv ! j) - o1 := snd (cpv ! j)])
             else Inl OutOfBounds) (f 0) = Inr (f (length cpv))"
    by (rule for_loop_closed) (rule step)
  moreover have "f 0 = d" by (simp add: f_def map_nth)
  ultimately show ?thesis by (simp add: Process_def f_def)
qed

lemma scatter_Process: "scatter d cpv = Process d 0 cpv"
  by (simp add: scatter_def Process_def cong: if_cong)

lemma scatter_char:
  assumes "\<forall>p\<in>set cpv. fst p < length d"
  shows "scatter d cpv
         = Inr (map (\<lambda>j. case map_of (rev cpv) j of Some v \<Rightarrow> v | None \<Rightarrow> d ! j) [0..<length d])"
  using Process_char[of cpv 0 d] assms by (simp add: scatter_Process)

lemma Process_Nil [simp]: "Process d o1 [] = Inr d"
  by (simp add: Process_def)

text \<open>Looking up a translated, filtered vector at the internal index of a column.\<close>

lemma map_of_stage_entries:
  assumes "c < length stage" and "stage ! c = t" and "\<forall>p\<in>set V. fst p < length stage"
  shows "map_of (rev (stage_entries stage (map (slot stage) [0..<length stage]) t V)) (slot stage c)
         = map_of (rev V) c"
  using assms(3)
proof (induction V rule: rev_induct)
  case Nil show ?case by (simp add: stage_entries_def)
next
  case (snoc x V)
  then have IH: "map_of (rev (stage_entries stage (map (slot stage) [0..<length stage]) t V)) (slot stage c)
         = map_of (rev V) c" and x: "fst x < length stage" by simp_all
  have inj: "(slot stage (fst x) = slot stage c) = (fst x = c)"
    using slot_inj[of "fst x" stage c] x assms(1) by auto
  show ?case
  proof (cases "stage ! fst x = t")
    case True
    then show ?thesis using IH x inj
      by (cases x) (auto simp: stage_entries_def)
  next
    case False
    then have "fst x \<noteq> c" using assms(2) by auto
    then show ?thesis using IH False
      by (cases x) (auto simp: stage_entries_def)
  qed
qed

lemma stage_entries_block:
  assumes "\<forall>p\<in>set V. fst p < length stage"
  shows "\<forall>p\<in>set (stage_entries stage (map (slot stage) [0..<length stage]) t V).
           below t stage \<le> fst p \<and> fst p < below (Suc t) stage"
proof
  fix p assume "p \<in> set (stage_entries stage (map (slot stage) [0..<length stage]) t V)"
  then obtain q where q: "q \<in> set V" "stage ! fst q = t"
    "p = (map (slot stage) [0..<length stage] ! fst q, snd q)"
    by (auto simp: stage_entries_def)
  then have l: "fst q < length stage" using assms by simp
  then have "fst p = slot stage (fst q)" using q by simp
  then show "below t stage \<le> fst p \<and> fst p < below (Suc t) stage"
    using slot_lower[of stage "fst q"] slot_upper[OF l] q(2) by simp
qed

text \<open>The combine step on the entries stored for a stage, in terms of the input vector.\<close>

lemma Process_stage_entries:
  assumes "\<forall>p\<in>set V. fst p < length stage" and "length base = occ t stage"
  shows "Process base (below t stage) (stage_entries stage (map (slot stage) [0..<length stage]) t V)
         = Inr (overlay (place_in2ex stage (length stage) (length stage)) (below t stage) V base)"
proof -
  let ?E = "stage_entries stage (map (slot stage) [0..<length stage]) t V"
  note blk = stage_entries_block[OF assms(1), of t]
  have rng: "\<forall>p\<in>set ?E. below t stage \<le> fst p \<and> fst p - below t stage < length base"
    using blk assms(2) by (auto simp: below_Suc)
  have "map_of (rev ?E) (below t stage + j)
        = map_of (rev V) (place_in2ex stage (length stage) (length stage) ! (below t stage + j))"
    if j: "j < length base" for j
  proof -
    let ?c = "stage_members stage t ! j"
    have jj: "j < occ t stage" using j assms(2) by simp
    note m = stage_members_nth[OF jj]
    have "place_in2ex stage (length stage) (length stage) ! (below t stage + j) = ?c"
      by (rule place_in2ex_block[OF jj])
    moreover have "map_of (rev ?E) (slot stage ?c) = map_of (rev V) ?c"
      by (rule map_of_stage_entries[OF m(1) m(2) assms(1)])
    ultimately show ?thesis using m(3) by simp
  qed
  then have "map (\<lambda>j. case map_of (rev ?E) (below t stage + j) of Some v \<Rightarrow> v | None \<Rightarrow> base ! j)
                  [0..<length base]
        = overlay (place_in2ex stage (length stage) (length stage)) (below t stage) V base"
    unfolding overlay_def by (intro map_cong refl) simp
  then show ?thesis using Process_char[OF rng] by simp
qed

lemma drop_map_upt: "drop i (map f [0..<n + i]) = map (\<lambda>j. f (i + j)) [0..<n]"
  by (rule nth_equalityI) (simp_all add: add.commute)

lemma dense_stage_entries:
  assumes "\<forall>p\<in>set V. fst p < length stage"
  shows "dense_stage_array (Inr (stage_entries stage (map (slot stage) [0..<length stage]) t V))
           (occ t stage) (below t stage)
         = Inr (overlay (place_in2ex stage (length stage) (length stage)) (below t stage) V
                  (replicate (occ t stage) 0))"
proof -
  let ?E = "stage_entries stage (map (slot stage) [0..<length stage]) t V"
  let ?n = "occ t stage" and ?i = "below t stage"
  note blk = stage_entries_block[OF assms(1), of t]
  have rng: "\<forall>p\<in>set ?E. fst p < length (replicate (?n + ?i) (0::'a))"
    using blk by (auto simp: below_Suc)
  have rng': "\<forall>p\<in>set ?E. ?i \<le> fst p \<and> fst p - ?i < length (replicate ?n (0::'a))"
    using blk by (auto simp: below_Suc)
  have "drop ?i (map (\<lambda>j. case map_of (rev ?E) j of Some v \<Rightarrow> v | None \<Rightarrow> replicate (?n + ?i) (0::'a) ! j)
                   [0..<?n + ?i])
        = map (\<lambda>j. case map_of (rev ?E) (?i + j) of Some v \<Rightarrow> v | None \<Rightarrow> replicate ?n (0::'a) ! j)
            [0..<?n]"
    unfolding drop_map_upt by (intro map_cong refl) (simp split: option.splits)
  moreover have "Process (replicate ?n (0::'a)) ?i ?E
        = Inr (overlay (place_in2ex stage (length stage) (length stage)) ?i V (replicate ?n 0))"
    by (rule Process_stage_entries[OF assms]) simp
  ultimately show ?thesis
    using scatter_char[OF rng] Process_char[OF rng']
    by (simp add: dense_stage_array_def denseVector_def)
qed

section \<open>Sorting the rows of a core node\<close>

lemma length_concat_map_length:
  "map length rows' = map length rows \<Longrightarrow> length (concat rows') = length (concat rows)"
  by (simp add: length_concat)

lemma node_layout_rebuf:
  assumes "node_layout node rows e1 e2 e3 e4 e5" and "map length rows' = map length rows"
  shows "node_layout (node\<lparr>buf := concat rows' @ e1 @ e2 @ e3 @ e4 @ e5\<rparr>) rows' e1 e2 e3 e4 e5"
proof -
  have l: "length rows' = length rows" using assms(2) by (metis length_map)
  have c: "length (concat rows') = length (concat rows)"
    by (rule length_concat_map_length[OF assms(2)])
  have t: "length (concat (take k rows')) = length (concat (take k rows))" for k
    by (rule length_concat_map_length) (simp add: take_map[symmetric] assms(2))
  show ?thesis using assms(1) unfolding node_layout_def by (simp add: l c t)
qed

lemma length_sortIncrIndex [simp]: "length (sortIncrIndex row) = length row"
  by (simp add: sortIncrIndex_def)

lemma sortIncrIndex_Nil [simp]: "sortIncrIndex [] = []"
  by (simp add: sortIncrIndex_def)

lemma sortIncrIndex_eq_Nil [simp]: "sortIncrIndex row = [] \<longleftrightarrow> row = []"
  by (metis length_sortIncrIndex length_0_conv)

lemma sort_rows_char:
  assumes lay: "node_layout node rows e1 e2 e3 e4 e5"
    and hm: "has_matrix node \<longrightarrow> length rows = nr"
    and nm: "\<not> has_matrix node \<longrightarrow> rows = []"
    and rb: "rowbeg node = irow"
  shows "sort_rows irow nr node
         = Inr (node\<lparr>buf := concat (map sortIncrIndex rows) @ e1 @ e2 @ e3 @ e4 @ e5\<rparr>)"
proof (cases "has_matrix node")
  case False
  have "for_loop nr
     (\<lambda>k node. rbind (getRowLength node (irow + k)) (\<lambda>len.
        if len > 0
        then rbind (getRow node (irow + k)) (\<lambda>row. setRow node (irow + k) (sortIncrIndex row))
        else Inr node)) ((\<lambda>k. node) 0) = Inr ((\<lambda>k. node) nr)"
    by (rule for_loop_closed) (simp add: getRowLength_def False)
  moreover have "node\<lparr>buf := concat (map sortIncrIndex rows) @ e1 @ e2 @ e3 @ e4 @ e5\<rparr> = node"
    using lay nm False by (simp add: node_layout_def)
  ultimately show ?thesis by (simp add: sort_rows_def)
next
  case True
  then have len: "length rows = nr" using hm by simp
  define R where "R k = map sortIncrIndex (take k rows) @ drop k rows" for k
  define f where "f k = node\<lparr>buf := concat (R k) @ e1 @ e2 @ e3 @ e4 @ e5\<rparr>" for k
  have Rlen: "map length (R k) = map length rows" for k
  proof -
    have "map length (R k) = map length (take k rows) @ map length (drop k rows)"
      by (simp add: R_def comp_def)
    then show ?thesis by (metis append_take_drop_id map_append)
  qed
  have lay_k: "node_layout (f k) (R k) e1 e2 e3 e4 e5" for k
    unfolding f_def by (rule node_layout_rebuf[OF lay Rlen])
  have Rl: "length (R k) = nr" for k using Rlen[of k] len by (metis length_map)
  have step: "rbind (getRowLength (f k) (irow + k)) (\<lambda>len.
        if len > 0
        then rbind (getRow (f k) (irow + k)) (\<lambda>row. setRow (f k) (irow + k) (sortIncrIndex row))
        else Inr (f k)) = Inr (f (Suc k))" if k: "k < nr" for k
  proof -
    have hmk: "has_matrix (f k)" and rbk: "rowbeg (f k) = irow" and msk: "mat_strt (f k) = 0"
      using True rb lay by (simp_all add: f_def node_layout_def)
    have kk: "k < length (R k)" using k Rl by simp
    have Rk: "R k ! k = rows ! k" using k len by (simp add: R_def nth_append)
    have tk: "take k (R k) = map sortIncrIndex (take k rows)"
      and dk: "drop (Suc k) (R k) = drop (Suc k) rows"
      using k len by (simp_all add: R_def)
    have RS: "R (Suc k) = map sortIncrIndex (take k rows) @ sortIncrIndex (rows ! k) # drop (Suc k) rows"
      using k len by (simp add: R_def take_Suc_conv_app_nth)
    have gl: "getRowLength (f k) (irow + k) = Inr (length (rows ! k))"
      and gr: "getRow (f k) (irow + k) = Inr (rows ! k)"
      using node_layout_row[OF lay_k hmk kk] rbk Rk by simp_all
    have bk: "buf (f k) = concat (take k (R k)) @ rows ! k
                @ (concat (drop (Suc k) (R k)) @ e1 @ e2 @ e3 @ e4 @ e5)"
      using concat_split_nth[OF kk] Rk by (simp add: f_def)
    have sk: "strt (f k) ! k = length (concat (take k (R k)))"
      using lay_k[of k] kk by (simp add: node_layout_def)
    have sl: "k < length (strt (f k))" using lay_k[of k] kk by (simp add: node_layout_def)
    show ?thesis
    proof (cases "rows ! k = []")
      case True
      then have "R (Suc k) = R k" using tk dk kk Rk RS
        by (metis sortIncrIndex_Nil id_take_nth_drop)
      then show ?thesis using gl True by (simp add: f_def)
    next
      case False
      have "setRow (f k) (irow + k) (sortIncrIndex (rows ! k))
            = Inr ((f k)\<lparr>buf := concat (take k (R k)) @ sortIncrIndex (rows ! k)
                     @ (concat (drop (Suc k) (R k)) @ e1 @ e2 @ e3 @ e4 @ e5)\<rparr>)"
        unfolding setRow_def using hmk rbk msk sl sk by (simp add: bk)
      moreover have "(f k)\<lparr>buf := concat (take k (R k)) @ sortIncrIndex (rows ! k)
                     @ (concat (drop (Suc k) (R k)) @ e1 @ e2 @ e3 @ e4 @ e5)\<rparr> = f (Suc k)"
        by (simp add: f_def RS tk dk)
      ultimately show ?thesis using gl gr False by simp
    qed
  qed
  have "for_loop nr
     (\<lambda>k node. rbind (getRowLength node (irow + k)) (\<lambda>len.
        if len > 0
        then rbind (getRow node (irow + k)) (\<lambda>row. setRow node (irow + k) (sortIncrIndex row))
        else Inr node)) (f 0) = Inr (f nr)"
    by (rule for_loop_closed) (rule step)
  moreover have "f 0 = node" using lay by (simp add: f_def R_def node_layout_def)
  moreover have "f nr = node\<lparr>buf := concat (map sortIncrIndex rows) @ e1 @ e2 @ e3 @ e4 @ e5\<rparr>"
    using len by (simp add: f_def R_def)
  ultimately show ?thesis by (simp add: sort_rows_def)
qed

section \<open>What the constructor of the core leaves for every stage\<close>

lemma node_layout_setCoreNode [simp]:
  "node_layout (setCoreNode node) rows e1 e2 e3 e4 e5 = node_layout node rows e1 e2 e3 e4 e5"
  by (simp add: node_layout_def setCoreNode_def)

lemma setCoreNode_fields [simp]:
  "stg (setCoreNode node) = stg node" "isCoreNode (setCoreNode node)"
  "nd_nrow (setCoreNode node) = nd_nrow node" "nd_ncol (setCoreNode node) = nd_ncol node"
  "rowbeg (setCoreNode node) = rowbeg node" "colbeg (setCoreNode node) = colbeg node"
  "has_matrix (setCoreNode node) = has_matrix node" "strt (setCoreNode node) = strt node"
  "buf (setCoreNode node) = buf node" "dRowMap (setCoreNode node) = dRowMap node"
  by (simp_all add: setCoreNode_def)

lemma make_core_node_step:
  assumes mk: "make_core_node m dclo dcup dobj drlo drup i c = Inr c'" and wf: "maps_wf c"
  shows "\<exists>node rlo rup clo cup obj.
           c' = c\<lparr>nodes := nodes c @ [node],
                   cdrlo := (cdrlo c)[i := rlo], cdrup := (cdrup c)[i := rup],
                   cdclo := (cdclo c)[i := clo], cdcup := (cdcup c)[i := cup],
                   cdobj := (cdobj c)[i := obj]\<rparr>
           \<and> i < length (cdrlo c) \<and> i < length (cdrup c) \<and> i < length (cdclo c)
           \<and> i < length (cdcup c) \<and> i < length (cdobj c)
           \<and> core_node_ok c m dclo dcup dobj drlo drup i node
           \<and> clo = overlay (colIn2Ex c) (stageColPtr c ! i) dclo (replicate (nColInStage c ! i) 0)
           \<and> cup = overlay (colIn2Ex c) (stageColPtr c ! i) dcup (replicate (nColInStage c ! i) 0)
           \<and> obj = overlay (colIn2Ex c) (stageColPtr c ! i) dobj (replicate (nColInStage c ! i) 0)
           \<and> rlo = overlay (rowIn2Ex c) (stageRowPtr c ! i) drlo (replicate (nRowInStage c ! i) 0)
           \<and> rup = overlay (rowIn2Ex c) (stageRowPtr c ! i) drup (replicate (nRowInStage c ! i) 0)"
proof -
  from mk obtain node0 where ct: "SmiNodeData_ctor i c (Some m) (Some dclo) (Some dcup) (Some dobj)
              (Some drlo) (Some drup) = Inr node0"
    unfolding make_core_node_def rbind_eq_Inr by blast
  note k = SmiNodeData_ctor_Inr[OF ct]
  have g: "getNumRows c i = Inr (nRowInStage c ! i)" "getNumCols c i = Inr (nColInStage c ! i)"
    "getRowStart c i = Inr (stageRowPtr c ! i)" "getColStart c i = Inr (stageColPtr c ! i)"
    using k(4-7) by (simp_all add: getNumRows_def getNumCols_def getRowStart_def getColStart_def)
  have lay00: "node_layout (setCoreNode node0) (node_rows c i (Some m))
      (stage_entries (colStage c) (colEx2In c) i dclo) (stage_entries (colStage c) (colEx2In c) i dcup)
      (stage_entries (colStage c) (colEx2In c) i dobj) (stage_entries (rowStage c) (rowEx2In c) i drlo)
      (stage_entries (rowStage c) (rowEx2In c) i drup)"
    using k(1) by (simp add: opt_entries_def)
  note seg = node_layout_segments[OF lay00]
  have i: "i < Suc (nstag c)" using k(4) wf by (simp add: maps_wf_def del: upt_Suc)
  have cw: "colEx2In c = map (slot (colStage c)) [0..<length (colStage c)]"
    "nColInStage c ! i = occ i (colStage c)" "stageColPtr c ! i = below i (colStage c)"
    "colIn2Ex c = place_in2ex (colStage c) (length (colStage c)) (length (colStage c))"
    "length (colStage c) = ncol c"
    using wf i by (simp_all add: maps_wf_def del: upt_Suc)
  have rw: "rowEx2In c = map (slot (rowStage c)) [0..<length (rowStage c)]"
    "nRowInStage c ! i = occ i (rowStage c)" "stageRowPtr c ! i = below i (rowStage c)"
    "rowIn2Ex c = place_in2ex (rowStage c) (length (rowStage c)) (length (rowStage c))"
    "length (rowStage c) = nrow c"
    using wf i by (simp_all add: maps_wf_def del: upt_Suc)
  have cr: "\<forall>p\<in>set dclo. fst p < length (colStage c)" "\<forall>p\<in>set dcup. fst p < length (colStage c)"
    "\<forall>p\<in>set dobj. fst p < length (colStage c)"
    and rr: "\<forall>p\<in>set drlo. fst p < length (rowStage c)" "\<forall>p\<in>set drup. fst p < length (rowStage c)"
    using k(17,18) by (auto simp: opt_entries_def)
  have d1: "dense_stage_array (getRowLower (setCoreNode node0)) (nRowInStage c ! i) (stageRowPtr c ! i)
            = Inr (overlay (rowIn2Ex c) (stageRowPtr c ! i) drlo (replicate (nRowInStage c ! i) 0))"
    using dense_stage_entries[OF rr(1), of i] seg(4) rw(1,2,3) rw(4)[symmetric]
    by (simp add: opt_entries_def)
  have d2: "dense_stage_array (getRowUpper (setCoreNode node0)) (nRowInStage c ! i) (stageRowPtr c ! i)
            = Inr (overlay (rowIn2Ex c) (stageRowPtr c ! i) drup (replicate (nRowInStage c ! i) 0))"
    using dense_stage_entries[OF rr(2), of i] seg(5) rw(1,2,3) rw(4)[symmetric]
    by (simp add: opt_entries_def)
  have d3: "dense_stage_array (getColLower (setCoreNode node0)) (nColInStage c ! i) (stageColPtr c ! i)
            = Inr (overlay (colIn2Ex c) (stageColPtr c ! i) dclo (replicate (nColInStage c ! i) 0))"
    using dense_stage_entries[OF cr(1), of i] seg(1) cw(1,2,3) cw(4)[symmetric]
    by (simp add: opt_entries_def)
  have d4: "dense_stage_array (getColUpper (setCoreNode node0)) (nColInStage c ! i) (stageColPtr c ! i)
            = Inr (overlay (colIn2Ex c) (stageColPtr c ! i) dcup (replicate (nColInStage c ! i) 0))"
    using dense_stage_entries[OF cr(2), of i] seg(2) cw(1,2,3) cw(4)[symmetric]
    by (simp add: opt_entries_def)
  have d5: "dense_stage_array (getObjective (setCoreNode node0)) (nColInStage c ! i) (stageColPtr c ! i)
            = Inr (overlay (colIn2Ex c) (stageColPtr c ! i) dobj (replicate (nColInStage c ! i) 0))"
    using dense_stage_entries[OF cr(3), of i] seg(3) cw(1,2,3) cw(4)[symmetric]
    by (simp add: opt_entries_def)
  let ?rows = "node_rows c i (Some m)"
  let ?e1 = "stage_entries (colStage c) (colEx2In c) i dclo"
  let ?e2 = "stage_entries (colStage c) (colEx2In c) i dcup"
  let ?e3 = "stage_entries (colStage c) (colEx2In c) i dobj"
  let ?e4 = "stage_entries (rowStage c) (rowEx2In c) i drlo"
  let ?e5 = "stage_entries (rowStage c) (rowEx2In c) i drup"
  let ?node = "(setCoreNode node0)\<lparr>buf := concat (map sortIncrIndex ?rows) @ ?e1 @ ?e2 @ ?e3 @ ?e4 @ ?e5\<rparr>"
  have lay0: "node_layout (setCoreNode node0) ?rows ?e1 ?e2 ?e3 ?e4 ?e5"
    using k(1) by (simp add: opt_entries_def)
  have sr: "sort_rows (stageRowPtr c ! i) (nRowInStage c ! i) (setCoreNode node0) = Inr ?node"
    by (rule sort_rows_char[OF lay0]) (use k(8,10,13,14) in simp_all)
  have lay: "node_layout ?node (map sortIncrIndex ?rows) ?e1 ?e2 ?e3 ?e4 ?e5"
    by (rule node_layout_rebuf[OF lay0]) (simp add: comp_def)
  have ok: "core_node_ok c m dclo dcup dobj drlo drup i ?node"
  proof -
    have r1: "\<forall>p\<in>set (dclo @ dcup @ dobj). fst p < ncol c" using cr cw(5) by auto
    have r2: "\<forall>p\<in>set (drlo @ drup). fst p < nrow c" using rr rw(5) by auto
    show ?thesis
      unfolding core_node_ok_def using lay k(2,8-16) r1 r2 k(19) cw(1,5)
      by (simp add: opt_entries_def del: set_append)
  qed
  from mk have fin: "(if i < length (cdrlo c) \<and> i < length (cdrup c) \<and> i < length (cdclo c)
        \<and> i < length (cdcup c) \<and> i < length (cdobj c)
     then Inr (c\<lparr>nodes := nodes c @ [?node],
                  cdrlo := (cdrlo c)[i := overlay (rowIn2Ex c) (stageRowPtr c ! i) drlo (replicate (nRowInStage c ! i) 0)],
                  cdrup := (cdrup c)[i := overlay (rowIn2Ex c) (stageRowPtr c ! i) drup (replicate (nRowInStage c ! i) 0)],
                  cdclo := (cdclo c)[i := overlay (colIn2Ex c) (stageColPtr c ! i) dclo (replicate (nColInStage c ! i) 0)],
                  cdcup := (cdcup c)[i := overlay (colIn2Ex c) (stageColPtr c ! i) dcup (replicate (nColInStage c ! i) 0)],
                  cdobj := (cdobj c)[i := overlay (colIn2Ex c) (stageColPtr c ! i) dobj (replicate (nColInStage c ! i) 0)]\<rparr>)
     else Inl OutOfBounds) = Inr c'"
    unfolding make_core_node_def ct g d1 d2 d3 d4 d5 sr rbind_Inr .
  then have b: "i < length (cdrlo c) \<and> i < length (cdrup c) \<and> i < length (cdclo c)
        \<and> i < length (cdcup c) \<and> i < length (cdobj c)"
    by (simp split: if_splits)
  with fin have c': "c' = c\<lparr>nodes := nodes c @ [?node],
                  cdrlo := (cdrlo c)[i := overlay (rowIn2Ex c) (stageRowPtr c ! i) drlo (replicate (nRowInStage c ! i) 0)],
                  cdrup := (cdrup c)[i := overlay (rowIn2Ex c) (stageRowPtr c ! i) drup (replicate (nRowInStage c ! i) 0)],
                  cdclo := (cdclo c)[i := overlay (colIn2Ex c) (stageColPtr c ! i) dclo (replicate (nColInStage c ! i) 0)],
                  cdcup := (cdcup c)[i := overlay (colIn2Ex c) (stageColPtr c ! i) dcup (replicate (nColInStage c ! i) 0)],
                  cdobj := (cdobj c)[i := overlay (colIn2Ex c) (stageColPtr c ! i) dobj (replicate (nColInStage c ! i) 0)]\<rparr>"
    by simp
  show ?thesis by (intro exI conjI, rule c') (use b ok in simp_all)
qed


lemma node_rows_update [simp]:
  "node_rows (c\<lparr>nodes := a\<rparr>) t mo = node_rows c t mo"
  "node_rows (c\<lparr>cdrlo := b\<rparr>) t mo = node_rows c t mo"
  "node_rows (c\<lparr>cdrup := b\<rparr>) t mo = node_rows c t mo"
  "node_rows (c\<lparr>cdclo := b\<rparr>) t mo = node_rows c t mo"
  "node_rows (c\<lparr>cdcup := b\<rparr>) t mo = node_rows c t mo"
  "node_rows (c\<lparr>cdobj := b\<rparr>) t mo = node_rows c t mo"
  "node_rows (c\<lparr>hasQdata := q\<rparr>) t mo = node_rows c t mo"
  by (simp_all add: node_rows_def cong: option.case_cong if_cong)

lemma core_node_ok_update [simp]:
  "core_node_ok (c\<lparr>nodes := a\<rparr>) m dclo dcup dobj drlo drup t nd
   = core_node_ok c m dclo dcup dobj drlo drup t nd"
  "core_node_ok (c\<lparr>cdrlo := b\<rparr>) m dclo dcup dobj drlo drup t nd
   = core_node_ok c m dclo dcup dobj drlo drup t nd"
  "core_node_ok (c\<lparr>cdrup := b\<rparr>) m dclo dcup dobj drlo drup t nd
   = core_node_ok c m dclo dcup dobj drlo drup t nd"
  "core_node_ok (c\<lparr>cdclo := b\<rparr>) m dclo dcup dobj drlo drup t nd
   = core_node_ok c m dclo dcup dobj drlo drup t nd"
  "core_node_ok (c\<lparr>cdcup := b\<rparr>) m dclo dcup dobj drlo drup t nd
   = core_node_ok c m dclo dcup dobj drlo drup t nd"
  "core_node_ok (c\<lparr>cdobj := b\<rparr>) m dclo dcup dobj drlo drup t nd
   = core_node_ok c m dclo dcup dobj drlo drup t nd"
  "core_node_ok (c\<lparr>hasQdata := q\<rparr>) m dclo dcup dobj drlo drup t nd
   = core_node_ok c m dclo dcup dobj drlo drup t nd"
  by (simp_all add: core_node_ok_def)

lemma core_stage_ok_old:
  assumes "t < length (nodes c)" and "t \<noteq> i"
  shows "core_stage_ok (c\<lparr>nodes := nodes c @ [node],
                   cdrlo := (cdrlo c)[i := rlo], cdrup := (cdrup c)[i := rup],
                   cdclo := (cdclo c)[i := clo], cdcup := (cdcup c)[i := cup],
                   cdobj := (cdobj c)[i := obj]\<rparr>) m dclo dcup dobj drlo drup t
         = core_stage_ok c m dclo dcup dobj drlo drup t"
  using assms by (simp add: core_stage_ok_def nth_append)

lemma core_stage_ok_new:
  assumes "i = length (nodes c)" and "i < length (cdrlo c)" and "i < length (cdrup c)"
    and "i < length (cdclo c)" and "i < length (cdcup c)" and "i < length (cdobj c)"
    and "core_node_ok c m dclo dcup dobj drlo drup i node"
  shows "core_stage_ok (c\<lparr>nodes := nodes c @ [node],
            cdrlo := (cdrlo c)[i := overlay (rowIn2Ex c) (stageRowPtr c ! i) drlo (replicate (nRowInStage c ! i) 0)],
            cdrup := (cdrup c)[i := overlay (rowIn2Ex c) (stageRowPtr c ! i) drup (replicate (nRowInStage c ! i) 0)],
            cdclo := (cdclo c)[i := overlay (colIn2Ex c) (stageColPtr c ! i) dclo (replicate (nColInStage c ! i) 0)],
            cdcup := (cdcup c)[i := overlay (colIn2Ex c) (stageColPtr c ! i) dcup (replicate (nColInStage c ! i) 0)],
            cdobj := (cdobj c)[i := overlay (colIn2Ex c) (stageColPtr c ! i) dobj (replicate (nColInStage c ! i) 0)]\<rparr>)
           m dclo dcup dobj drlo drup i"
  using assms by (simp add: core_stage_ok_def)

lemma core_nodes_loop_stages:
  assumes l: "for_loop n (make_core_node m dclo dcup dobj drlo drup) core0 = Inr core"
    and wf: "maps_wf core0" and e: "nodes core0 = []"
    and len: "length (cdrlo core0) = ns" "length (cdrup core0) = ns" "length (cdclo core0) = ns"
      "length (cdcup core0) = ns" "length (cdobj core0) = ns"
  shows "length (nodes core) = n \<and> length (cdrlo core) = ns \<and> length (cdrup core) = ns
         \<and> length (cdclo core) = ns \<and> length (cdcup core) = ns \<and> length (cdobj core) = ns
         \<and> (\<forall>t<n. core_stage_ok core m dclo dcup dobj drlo drup t)"
proof -
  let ?I = "\<lambda>i c. maps_wf c \<and> length (nodes c) = i \<and> length (cdrlo c) = ns \<and> length (cdrup c) = ns
         \<and> length (cdclo c) = ns \<and> length (cdcup c) = ns \<and> length (cdobj c) = ns
         \<and> (\<forall>t<i. core_stage_ok c m dclo dcup dobj drlo drup t)"
  have "?I n core"
  proof (rule for_loop_invariant[OF l, where I = ?I])
    show "?I 0 core0" using wf e len by simp
  next
    fix i a b
    assume i: "i < n" and I: "?I i a" and mk: "make_core_node m dclo dcup dobj drlo drup i a = Inr b"
    from I have wfa: "maps_wf a" and ln: "length (nodes a) = i"
      and old: "\<forall>t<i. core_stage_ok a m dclo dcup dobj drlo drup t" by simp_all
    from make_core_node_step[OF mk wfa] obtain node where
      b: "b = a\<lparr>nodes := nodes a @ [node],
            cdrlo := (cdrlo a)[i := overlay (rowIn2Ex a) (stageRowPtr a ! i) drlo (replicate (nRowInStage a ! i) 0)],
            cdrup := (cdrup a)[i := overlay (rowIn2Ex a) (stageRowPtr a ! i) drup (replicate (nRowInStage a ! i) 0)],
            cdclo := (cdclo a)[i := overlay (colIn2Ex a) (stageColPtr a ! i) dclo (replicate (nColInStage a ! i) 0)],
            cdcup := (cdcup a)[i := overlay (colIn2Ex a) (stageColPtr a ! i) dcup (replicate (nColInStage a ! i) 0)],
            cdobj := (cdobj a)[i := overlay (colIn2Ex a) (stageColPtr a ! i) dobj (replicate (nColInStage a ! i) 0)]\<rparr>"
      and bd: "i < length (cdrlo a)" "i < length (cdrup a)" "i < length (cdclo a)"
        "i < length (cdcup a)" "i < length (cdobj a)"
      and ok: "core_node_ok a m dclo dcup dobj drlo drup i node"
      by blast
    have new: "core_stage_ok b m dclo dcup dobj drlo drup i"
      unfolding b by (rule core_stage_ok_new) (use ln bd ok in simp_all)
    have prev: "core_stage_ok b m dclo dcup dobj drlo drup t" if "t < i" for t
      unfolding b using core_stage_ok_old[of t a i] that ln old by simp
    have "\<forall>t<Suc i. core_stage_ok b m dclo dcup dobj drlo drup t"
      using new prev by (auto simp: less_Suc_eq)
    moreover have "maps_wf b" "length (nodes b) = Suc i" "length (cdrlo b) = ns"
      "length (cdrup b) = ns" "length (cdclo b) = ns" "length (cdcup b) = ns" "length (cdobj b) = ns"
      using I by (simp_all add: b)
    ultimately show "?I (Suc i) b" by simp
  qed
  then show ?thesis by simp
qed

lemma gutsOfConstructor_stages:
  assumes "gutsOfConstructor nrow' ncol' nstag' cstag rstag m dclo dcup dobj drlo drup ints bins
           = Inr core"
  shows "length (nodes core) = nstag'" and "length (cdrlo core) = nstag'"
    and "length (cdrup core) = nstag'" and "length (cdclo core) = nstag'"
    and "length (cdcup core) = nstag'" and "length (cdobj core) = nstag'"
    and "\<forall>t<nstag'. core_stage_ok core m dclo dcup dobj drlo drup t"
    and "\<not> hasQdata core"
proof -
  from assms have len: "ncol' \<le> length cstag" "nrow' \<le> length rstag"
    by (auto simp: gutsOfConstructor_def split: if_splits)
  from assms len obtain nRow rowPtr rEx2In rIn2Ex nCol colPtr cEx2In cIn2Ex prev icsw where
    r: "stage_maps nstag' nrow' (take nrow' rstag) = Inr (nRow, rowPtr, rEx2In, rIn2Ex)" and
    c: "stage_maps nstag' ncol' (take ncol' cstag) = Inr (nCol, colPtr, cEx2In, cIn2Ex)" and
    l: "for_loop nstag' (make_core_node m dclo dcup dobj drlo drup)
         \<lparr> nrow = nrow', ncol = ncol', nstag = nstag',
           nColInStage = nCol, nRowInStage = nRow,
           stageColPtr = colPtr, stageRowPtr = rowPtr,
           colStage = take ncol' cstag, rowStage = take nrow' rstag,
           colEx2In = cEx2In, rowEx2In = rEx2In, colIn2Ex = cIn2Ex, rowIn2Ex = rIn2Ex,
           integerIndices = ints, binaryIndices = bins, intColsStagewise = icsw,
           cdrlo = replicate nstag' [], cdrup = replicate nstag' [],
           cdobj = replicate nstag' [], cdclo = replicate nstag' [],
           cdcup = replicate nstag' [], nodes = [], hasQdata = False, sqp = None \<rparr> = Inr core"
    by (auto simp: gutsOfConstructor_def rbind_eq_Inr split: if_splits prod.splits)
  let ?core0 = "\<lparr> nrow = nrow', ncol = ncol', nstag = nstag',
           nColInStage = nCol, nRowInStage = nRow,
           stageColPtr = colPtr, stageRowPtr = rowPtr,
           colStage = take ncol' cstag, rowStage = take nrow' rstag,
           colEx2In = cEx2In, rowEx2In = rEx2In, colIn2Ex = cIn2Ex, rowIn2Ex = rIn2Ex,
           integerIndices = ints, binaryIndices = bins, intColsStagewise = icsw,
           cdrlo = replicate nstag' [], cdrup = replicate nstag' [],
           cdobj = replicate nstag' [], cdclo = replicate nstag' [],
           cdcup = replicate nstag' ([]::'a list), nodes = [], hasQdata = False, sqp = None \<rparr>"
  have wf0: "maps_wf ?core0"
    using core_nodes_loop_frame[OF l] gutsOfConstructor_maps(1)[OF assms] by simp
  note st = core_nodes_loop_stages[OF l wf0, of nstag']
  show "length (nodes core) = nstag'" "length (cdrlo core) = nstag'"
    "length (cdrup core) = nstag'" "length (cdclo core) = nstag'"
    "length (cdcup core) = nstag'" "length (cdobj core) = nstag'"
    "\<forall>t<nstag'. core_stage_ok core m dclo dcup dobj drlo drup t"
    using st by simp_all
  show "\<not> hasQdata core" using core_nodes_loop_frame[OF l] by simp
qed

section \<open>Copying out and combining the dense stage arrays\<close>

lemma length_overlay [simp]: "length (overlay in2ex start cpv base) = length base"
  by (simp add: overlay_def)

lemma overlay_Nil [simp]: "overlay in2ex start [] base = base"
  by (simp add: overlay_def map_nth)

lemma stage_entries_Nil [simp]: "stage_entries S E t [] = []"
  by (simp add: stage_entries_def)

text \<open>The dense stage arrays of a constructed core, as the core copies them out.\<close>

lemma core_stage_copy:
  assumes g: "gutsOfConstructor nrow' ncol' nstag' cstag rstag m dclo dcup dobj drlo drup ints bins
              = Inr core"
    and t: "t < nstag'"
  shows "SmiCoreData_copyRowLower core t = Inr (cdrlo core ! t)"
    and "SmiCoreData_copyRowUpper core t = Inr (cdrup core ! t)"
    and "SmiCoreData_copyColLower core t = Inr (cdclo core ! t)"
    and "SmiCoreData_copyColUpper core t = Inr (cdcup core ! t)"
    and "SmiCoreData_copyObjective core t = Inr (cdobj core ! t)"
    and "length (cdrlo core ! t) = nRowInStage core ! t"
    and "length (cdrup core ! t) = nRowInStage core ! t"
    and "length (cdclo core ! t) = nColInStage core ! t"
    and "length (cdcup core ! t) = nColInStage core ! t"
    and "length (cdobj core ! t) = nColInStage core ! t"
    and "getRowStart core t = Inr (stageRowPtr core ! t)"
    and "getColStart core t = Inr (stageColPtr core ! t)"
proof -
  note mp = gutsOfConstructor_maps[OF g]
  note st = gutsOfConstructor_stages[OF g]
  note ml = maps_wf_lengths[OF mp(1)]
  have ok: "core_stage_ok core m dclo dcup dobj drlo drup t" using st(7) t by simp
  show l: "length (cdrlo core ! t) = nRowInStage core ! t"
    "length (cdrup core ! t) = nRowInStage core ! t"
    "length (cdclo core ! t) = nColInStage core ! t"
    "length (cdcup core ! t) = nColInStage core ! t"
    "length (cdobj core ! t) = nColInStage core ! t"
    using ok by (simp_all add: core_stage_ok_def)
  have n: "getNumRows core t = Inr (nRowInStage core ! t)" "getNumCols core t = Inr (nColInStage core ! t)"
    using ml t mp(2) by (simp_all add: getNumRows_def getNumCols_def)
  show "SmiCoreData_copyRowLower core t = Inr (cdrlo core ! t)"
    "SmiCoreData_copyRowUpper core t = Inr (cdrup core ! t)"
    "SmiCoreData_copyColLower core t = Inr (cdclo core ! t)"
    "SmiCoreData_copyColUpper core t = Inr (cdcup core ! t)"
    "SmiCoreData_copyObjective core t = Inr (cdobj core ! t)"
    using st(2-6) t n l
    by (simp_all add: SmiCoreData_copyRowLower_def SmiCoreData_copyRowUpper_def
          SmiCoreData_copyColLower_def SmiCoreData_copyColUpper_def SmiCoreData_copyObjective_def
          copy_stage_array_def)
  show "getRowStart core t = Inr (stageRowPtr core ! t)" "getColStart core t = Inr (stageColPtr core ! t)"
    using ml t mp(2) by (simp_all add: getRowStart_def getColStart_def)
qed

text \<open>The combine step of a core node.\<close>

lemma core_node_copy:
  assumes g: "gutsOfConstructor nrow' ncol' nstag' cstag rstag m dclo dcup dobj drlo drup ints bins
              = Inr core"
    and t: "t < nstag'"
  shows "copyRowLower core (nodes core ! t) = Inr (cdrlo core ! t)"
    and "copyRowUpper core (nodes core ! t) = Inr (cdrup core ! t)"
    and "copyColLower core (nodes core ! t) = Inr (cdclo core ! t)"
    and "copyColUpper core (nodes core ! t) = Inr (cdcup core ! t)"
    and "copyObjective core (nodes core ! t) = Inr (cdobj core ! t)"
    and "isCoreNode (nodes core ! t)" and "stg (nodes core ! t) = t"
proof -
  note st = gutsOfConstructor_stages[OF g]
  note cp = core_stage_copy[OF g t]
  have ok: "core_node_ok core m dclo dcup dobj drlo drup t (nodes core ! t)"
    using st(7) t by (simp add: core_stage_ok_def)
  then have lay: "node_layout (nodes core ! t) (map sortIncrIndex (node_rows core t (Some m)))
       (stage_entries (colStage core) (colEx2In core) t dclo)
       (stage_entries (colStage core) (colEx2In core) t dcup)
       (stage_entries (colStage core) (colEx2In core) t dobj)
       (stage_entries (rowStage core) (rowEx2In core) t drlo)
       (stage_entries (rowStage core) (rowEx2In core) t drup)"
    and s: "stg (nodes core ! t) = t" and c: "isCoreNode (nodes core ! t)"
    by (simp_all add: core_node_ok_def)
  note seg = node_layout_segments[OF lay]
  show "copyRowLower core (nodes core ! t) = Inr (cdrlo core ! t)"
    by (simp add: copyRowLower_def s cp seg combineWithCoreDoubleArray_def c)
  show "copyRowUpper core (nodes core ! t) = Inr (cdrup core ! t)"
    by (simp add: copyRowUpper_def s cp seg combineWithCoreDoubleArray_def c)
  show "copyColLower core (nodes core ! t) = Inr (cdclo core ! t)"
    by (simp add: copyColLower_def s cp seg combineWithCoreDoubleArray_def c)
  show "copyColUpper core (nodes core ! t) = Inr (cdcup core ! t)"
    by (simp add: copyColUpper_def s cp seg combineWithCoreDoubleArray_def c)
  show "copyObjective core (nodes core ! t) = Inr (cdobj core ! t)"
    by (simp add: copyObjective_def s cp seg combineWithCoreDoubleArray_def c)
  show "isCoreNode (nodes core ! t)" "stg (nodes core ! t) = t" by (rule c, rule s)
qed

text \<open>The combine step of a node built on the core by the constructor of \<open>SmiNodeData\<close>.\<close>

lemma scenario_node_copy:
  assumes g: "gutsOfConstructor nrow' ncol' nstag' cstag rstag m dclo0 dcup0 dobj0 drlo0 drup0
                ints bins = Inr core"
    and n: "SmiNodeData_ctor t core matrix dclo dcup dobj drlo drup = Inr node"
    and t: "t < nstag'"
  shows "copyRowLower core node
         = Inr (overlay (rowIn2Ex core) (stageRowPtr core ! t) (opt_entries drlo) (cdrlo core ! t))"
    and "copyRowUpper core node
         = Inr (overlay (rowIn2Ex core) (stageRowPtr core ! t) (opt_entries drup) (cdrup core ! t))"
    and "copyColLower core node
         = Inr (overlay (colIn2Ex core) (stageColPtr core ! t) (opt_entries dclo) (cdclo core ! t))"
    and "copyColUpper core node
         = Inr (overlay (colIn2Ex core) (stageColPtr core ! t) (opt_entries dcup) (cdcup core ! t))"
    and "copyObjective core node
         = Inr (overlay (colIn2Ex core) (stageColPtr core ! t) (opt_entries dobj) (cdobj core ! t))"
proof -
  note mp = gutsOfConstructor_maps[OF g]
  note cp = core_stage_copy[OF g t]
  note k = SmiNodeData_ctor_Inr[OF n]
  note seg = node_layout_segments[OF k(1)]
  have i: "t < Suc (nstag core)" using t mp(2) by simp
  have cw: "colEx2In core = map (slot (colStage core)) [0..<length (colStage core)]"
    "nColInStage core ! t = occ t (colStage core)" "stageColPtr core ! t = below t (colStage core)"
    "colIn2Ex core = place_in2ex (colStage core) (length (colStage core)) (length (colStage core))"
    using mp(1) i by (simp_all add: maps_wf_def del: upt_Suc)
  have rw: "rowEx2In core = map (slot (rowStage core)) [0..<length (rowStage core)]"
    "nRowInStage core ! t = occ t (rowStage core)" "stageRowPtr core ! t = below t (rowStage core)"
    "rowIn2Ex core = place_in2ex (rowStage core) (length (rowStage core)) (length (rowStage core))"
    using mp(1) i by (simp_all add: maps_wf_def del: upt_Suc)
  have cr: "\<forall>p\<in>set (opt_entries dclo). fst p < length (colStage core)"
    "\<forall>p\<in>set (opt_entries dcup). fst p < length (colStage core)"
    "\<forall>p\<in>set (opt_entries dobj). fst p < length (colStage core)"
    and rr: "\<forall>p\<in>set (opt_entries drlo). fst p < length (rowStage core)"
    "\<forall>p\<in>set (opt_entries drup). fst p < length (rowStage core)"
    using k(17,18) by auto
  have p1: "Process (cdrlo core ! t) (stageRowPtr core ! t)
              (stage_entries (rowStage core) (rowEx2In core) t (opt_entries drlo))
            = Inr (overlay (rowIn2Ex core) (stageRowPtr core ! t) (opt_entries drlo) (cdrlo core ! t))"
    using Process_stage_entries[OF rr(1), of "cdrlo core ! t" t] cp(6) rw(1,2,3) rw(4)[symmetric] by simp
  have p2: "Process (cdrup core ! t) (stageRowPtr core ! t)
              (stage_entries (rowStage core) (rowEx2In core) t (opt_entries drup))
            = Inr (overlay (rowIn2Ex core) (stageRowPtr core ! t) (opt_entries drup) (cdrup core ! t))"
    using Process_stage_entries[OF rr(2), of "cdrup core ! t" t] cp(7) rw(1,2,3) rw(4)[symmetric] by simp
  have p3: "Process (cdclo core ! t) (stageColPtr core ! t)
              (stage_entries (colStage core) (colEx2In core) t (opt_entries dclo))
            = Inr (overlay (colIn2Ex core) (stageColPtr core ! t) (opt_entries dclo) (cdclo core ! t))"
    using Process_stage_entries[OF cr(1), of "cdclo core ! t" t] cp(8) cw(1,2,3) cw(4)[symmetric] by simp
  have p4: "Process (cdcup core ! t) (stageColPtr core ! t)
              (stage_entries (colStage core) (colEx2In core) t (opt_entries dcup))
            = Inr (overlay (colIn2Ex core) (stageColPtr core ! t) (opt_entries dcup) (cdcup core ! t))"
    using Process_stage_entries[OF cr(2), of "cdcup core ! t" t] cp(9) cw(1,2,3) cw(4)[symmetric] by simp
  have p5: "Process (cdobj core ! t) (stageColPtr core ! t)
              (stage_entries (colStage core) (colEx2In core) t (opt_entries dobj))
            = Inr (overlay (colIn2Ex core) (stageColPtr core ! t) (opt_entries dobj) (cdobj core ! t))"
    using Process_stage_entries[OF cr(3), of "cdobj core ! t" t] cp(10) cw(1,2,3) cw(4)[symmetric] by simp
  show "copyRowLower core node
         = Inr (overlay (rowIn2Ex core) (stageRowPtr core ! t) (opt_entries drlo) (cdrlo core ! t))"
    by (simp add: copyRowLower_def k(2,3) cp seg combineWithCoreDoubleArray_def p1)
  show "copyRowUpper core node
         = Inr (overlay (rowIn2Ex core) (stageRowPtr core ! t) (opt_entries drup) (cdrup core ! t))"
    by (simp add: copyRowUpper_def k(2,3) cp seg combineWithCoreDoubleArray_def p2)
  show "copyColLower core node
         = Inr (overlay (colIn2Ex core) (stageColPtr core ! t) (opt_entries dclo) (cdclo core ! t))"
    by (simp add: copyColLower_def k(2,3) cp seg combineWithCoreDoubleArray_def p3)
  show "copyColUpper core node
         = Inr (overlay (colIn2Ex core) (stageColPtr core ! t) (opt_entries dcup) (cdcup core ! t))"
    by (simp add: copyColUpper_def k(2,3) cp seg combineWithCoreDoubleArray_def p4)
  show "copyObjective core node
         = Inr (overlay (colIn2Ex core) (stageColPtr core ! t) (opt_entries dobj) (cdobj core ! t))"
    by (simp add: copyObjective_def k(2,3) cp seg combineWithCoreDoubleArray_def p5)
qed

section \<open>The public constructor\<close>

lemma SmiCoreData_ctor_guts:
  assumes "SmiCoreData_ctor nrow' ncol' rowLower rowUpper colLower colUpper objc m
             nstag' cstag rstag ints bins = Inr core"
  shows "gutsOfConstructor nrow' ncol' nstag' cstag rstag m (zip [0..<ncol'] colLower)
           (zip [0..<ncol'] colUpper) (zip [0..<ncol'] objc) (zip [0..<nrow'] rowLower)
           (zip [0..<nrow'] rowUpper) ints bins = Inr core"
    and "nrow' \<le> length rowLower" and "nrow' \<le> length rowUpper"
    and "ncol' \<le> length colLower" and "ncol' \<le> length colUpper" and "ncol' \<le> length objc"
proof -
  from assms show len: "nrow' \<le> length rowLower" "nrow' \<le> length rowUpper"
    "ncol' \<le> length colLower" "ncol' \<le> length colUpper" "ncol' \<le> length objc"
    by (auto simp: SmiCoreData_ctor_def fullVector_def rbind_eq_Inr split: if_splits)
  from assms len obtain core0 where
    g: "gutsOfConstructor nrow' ncol' nstag' cstag rstag m (zip [0..<ncol'] colLower)
           (zip [0..<ncol'] colUpper) (zip [0..<ncol'] objc) (zip [0..<nrow'] rowLower)
           (zip [0..<nrow'] rowUpper) ints bins = Inr core0"
    and c: "core = core0\<lparr>hasQdata := False\<rparr>"
    by (auto simp: SmiCoreData_ctor_def fullVector_def rbind_eq_Inr)
  have "\<not> hasQdata core0" by (rule gutsOfConstructor_stages(8)[OF g])
  then have "core = core0" using c by simp
  then show "gutsOfConstructor nrow' ncol' nstag' cstag rstag m (zip [0..<ncol'] colLower)
           (zip [0..<ncol'] colUpper) (zip [0..<ncol'] objc) (zip [0..<nrow'] rowLower)
           (zip [0..<nrow'] rowUpper) ints bins = Inr core"
    using g by simp
qed

lemma map_of_rev_zip_upt:
  assumes "c < n" and "n \<le> length xs"
  shows "map_of (rev (zip [0..<n] xs)) c = Some (xs ! c)"
proof (rule map_of_is_SomeI)
  have "map fst (zip [0..<n] xs) = [0..<n]" using assms(2) by (simp add: map_fst_zip_take)
  then show "distinct (map fst (rev (zip [0..<n] xs)))" by (simp add: rev_map[symmetric])
  have "(c, xs ! c) \<in> set (zip [0..<n] xs)"
    using assms by (auto simp: set_zip intro!: exI[of _ c])
  then show "(c, xs ! c) \<in> set (rev (zip [0..<n] xs))" by simp
qed

lemma overlay_full:
  assumes "n \<le> length xs" and "\<forall>j<k. in2ex ! (start + j) < n"
  shows "overlay in2ex start (zip [0..<n] xs) (replicate k z)
         = map (\<lambda>j. xs ! (in2ex ! (start + j))) [0..<k]"
  unfolding overlay_def using assms by (auto simp: map_of_rev_zip_upt)

section \<open>Dense rows\<close>

lemma getRow_dRowMap [simp]: "getRow (node\<lparr>dRowMap := d\<rparr>) i = getRow node i"
  by (simp add: getRow_def getSegment_def getLength_def)

lemma map_of_rev_None: "c \<notin> fst ` set row \<Longrightarrow> map_of (rev row) c = None"
  by (simp add: map_of_eq_None_iff)

lemma map_of_rev_distinct:
  "distinct (map fst row) \<Longrightarrow> p \<in> set row \<Longrightarrow> map_of (rev row) (fst p) = Some (snd p)"
  by (rule map_of_is_SomeI) (simp_all add: rev_map[symmetric])

lemma getDenseRow_spec_I:
  assumes r: "getRow node i = Inr row" and b: "\<forall>p\<in>set row. fst p < ncol core"
  shows "getDenseRow_spec core node i"
proof -
  let ?dv = "map (\<lambda>c. case map_of (rev row) c of Some v \<Rightarrow> v | None \<Rightarrow> (0::'a)) [0..<ncol core]"
  let ?node' = "node\<lparr>dRowMap := AList.update i ?dv (dRowMap node)\<rparr>"
  have "\<forall>p\<in>set row. fst p < length (replicate (ncol core) (0::'a))" using b by simp
  from scatter_char[OF this]
  have sc: "scatter (replicate (ncol core) 0) row = Inr ?dv"
    by (simp cong: map_cong option.case_cong)
  have g1: "getDenseRow core node i = Inr (?dv, ?node')"
    by (simp add: getDenseRow_def r sc)
  have g2: "getDenseRow core ?node' i = Inr (?dv, ?node')"
    by (simp add: getDenseRow_def r sc)
  have z: "\<forall>c<ncol core. c \<notin> fst ` set row \<longrightarrow> ?dv ! c = 0"
    by (simp add: map_of_rev_None)
  have d: "distinct (map fst row) \<longrightarrow> (\<forall>p\<in>set row. ?dv ! fst p = snd p)"
    using b by (auto simp: map_of_rev_distinct)
  show ?thesis unfolding getDenseRow_spec_def
    by (intro exI[of _ row] exI[of _ ?dv] exI[of _ ?node'] conjI r g1 g2 b z d) simp_all
qed

lemma node_rows_nth:
  assumes "k < length (node_rows core t matrix)"
  shows "node_rows core t matrix ! k
         = map (\<lambda>p. (colEx2In core ! fst p, snd p))
             (opt_entries matrix ! (rowIn2Ex core ! (stageRowPtr core ! t + k)))"
  using assms by (cases matrix) (auto simp: node_rows_def opt_entries_def split: if_splits)

lemma node_rows_range:
  assumes wf: "maps_wf core" and k: "k < length (node_rows core t matrix)"
    and r: "\<forall>q\<in>set (opt_entries matrix ! (rowIn2Ex core ! (stageRowPtr core ! t + k))).
             fst q < ncol core"
  shows "\<forall>p\<in>set (node_rows core t matrix ! k). fst p < ncol core"
proof
  fix p assume "p \<in> set (node_rows core t matrix ! k)"
  then obtain q where q: "q \<in> set (opt_entries matrix ! (rowIn2Ex core ! (stageRowPtr core ! t + k)))"
    "p = (colEx2In core ! fst q, snd q)"
    unfolding node_rows_nth[OF k] by auto
  then have "fst q < ncol core" using r by simp
  then show "fst p < ncol core" using maps_wf_col_roundtrip(1)[OF wf] q(2) by simp
qed

section \<open>Sorted rows\<close>

lemma sorted_sortIncrIndex: "sorted (map fst (sortIncrIndex row))"
  by (simp add: sortIncrIndex_def)

lemma distinct_sortIncrIndex:
  "distinct (map fst (sortIncrIndex row)) = distinct (map fst row)"
proof -
  have "mset (map fst (sortIncrIndex row)) = mset (map fst row)"
    by (simp add: sortIncrIndex_def)
  then show ?thesis by (metis mset_eq_imp_distinct_iff)
qed

lemma distinct_translated:
  assumes wf: "maps_wf core" and d: "distinct (map fst r)" and b: "\<forall>q\<in>set r. fst q < ncol core"
  shows "distinct (map fst (map (\<lambda>p. (colEx2In core ! fst p, snd p)) r))"
proof -
  have l: "length (colStage core) = ncol core"
    and e: "colEx2In core = map (slot (colStage core)) [0..<ncol core]"
    using wf by (simp_all add: maps_wf_def)
  have "inj_on (\<lambda>c. colEx2In core ! c) (set (map fst r))"
  proof (rule inj_onI)
    fix x y assume "x \<in> set (map fst r)" "y \<in> set (map fst r)"
      and eq: "colEx2In core ! x = colEx2In core ! y"
    then have x: "x < ncol core" and y: "y < ncol core" using b by auto
    then show "x = y" using eq e slot_inj[of x "colStage core" y] l by simp
  qed
  then have "distinct (map (\<lambda>c. colEx2In core ! c) (map fst r))"
    by (rule iffD2[OF distinct_map, OF conjI[OF d]])
  then show ?thesis by (simp add: comp_def)
qed

section \<open>Stage labels out of range\<close>









lemma stage_subscripts_cases:
  "stage_subscripts n stage = Inl OutOfBounds
   \<or> (stage_subscripts n stage = Inr (map nat (take n stage)) \<and> n \<le> length stage
      \<and> (\<forall>i<n. 0 \<le> stage ! i))"
proof (cases "length stage < n \<or> list_ex (\<lambda>s. s < 0) (take n stage)")
  case True then show ?thesis by (auto simp: stage_subscripts_def)
next
  case False
  then have n: "n \<le> length stage" and a: "\<forall>x\<in>set (take n stage). 0 \<le> x"
    by (auto simp: list_ex_iff not_less)
  have "0 \<le> stage ! i" if "i < n" for i
  proof -
    have "take n stage ! i \<in> set (take n stage)" using that n by (intro nth_mem) simp
    then show ?thesis using a that by simp
  qed
  then show ?thesis using False n by (simp add: stage_subscripts_def)
qed

lemma stage_subscripts_fails:
  "length stage < n \<or> (\<exists>i<n. stage ! i < 0) \<Longrightarrow> stage_subscripts n stage = Inl OutOfBounds"
  using stage_subscripts_cases[of n stage] by (auto simp: not_le)

section \<open>The quadratic objective\<close>












lemma length_qstarts [simp]: "length (qstarts core starts t) = Suc (ncol core)"
  by (simp add: qstarts_def del: upt_Suc)









lemma same_linear_node_refl [simp]: "same_linear_node a a"
  by (simp add: same_linear_node_def)







section \<open>The example core and node\<close>

lemma ex_guts_ok: "\<not> isl ex_guts"
  unfolding ex_guts_def by code_simp

lemma ex_guts_Inr:
  "gutsOfConstructor 2 3 2 [1, 0, 1] [1, 0] [[(0, 5), (1, 2), (2, 7)], [(1, 3)]]
     [(0, 20), (1, 21), (2, 22)] [(0, 30), (1, 31), (2, 32)] [(0, 40), (1, 41), (2, 42)]
     [(0, 10), (1, 12)] [(0, 11), (1, 13)] [] [] = Inr (projr ex_guts)"
proof -
  have "ex_guts = Inr (projr ex_guts)" using ex_guts_ok by (cases ex_guts) simp_all
  then show ?thesis unfolding ex_guts_def[symmetric] .
qed

lemma ex_guts_fields:
  "nrow (projr ex_guts) = 2" "ncol (projr ex_guts) = 3" "nstag (projr ex_guts) = 2"
  "colStage (projr ex_guts) = [1, 0, 1]" "rowStage (projr ex_guts) = [1, 0]"
  "colEx2In (projr ex_guts) = [1, 0, 2]" "rowEx2In (projr ex_guts) = [1, 0]"
  "colIn2Ex (projr ex_guts) = [1, 0, 2]" "rowIn2Ex (projr ex_guts) = [1, 0]"
  "stageColPtr (projr ex_guts) = [0, 1, 3]" "stageRowPtr (projr ex_guts) = [0, 1, 2]"
  "nColInStage (projr ex_guts) = [1, 2, 0]" "nRowInStage (projr ex_guts) = [1, 1, 0]"
  unfolding ex_guts_def by code_simp+

lemma ex_node_ok: "\<not> isl ex_node"
  unfolding ex_node_def ex_guts_def by code_simp

lemma ex_node_Inr:
  "SmiNodeData_ctor 1 (projr ex_guts) (Some [[(0, 4), (1, 5)], []])
     (Some [(0, 1), (1, 2)]) None None None None = Inr (projr ex_node)"
proof -
  have "ex_node = Inr (projr ex_node)" using ex_node_ok by (cases ex_node) simp_all
  then show ?thesis unfolding ex_node_def[symmetric] .
qed

lemma ex_node_fields:
  "stg (projr ex_node) = 1" "has_matrix (projr ex_node)" "nd_nrow (projr ex_node) = 1"
  "rowbeg (projr ex_node) = 1" "colbeg (projr ex_node) = 1" "nd_ncol (projr ex_node) = 2"
  "\<not> isCoreNode (projr ex_node)"
  unfolding ex_node_def ex_guts_def by code_simp+

lemma ex_node_nomatrix_ok: "\<not> isl ex_node_nomatrix"
  unfolding ex_node_nomatrix_def ex_guts_def by code_simp

lemma ex_node_nomatrix_fields:
  "strt (projr ex_node_nomatrix) = [0, 1, 1, 1, 1, 1, 0]"
  "buf (projr ex_node_nomatrix) = [(1, 1)]"
  "nd_nrow (projr ex_node_nomatrix) = 1"
  "\<not> has_matrix (projr ex_node_nomatrix)"
  "rup_strt (projr ex_node_nomatrix) = 4"
  unfolding ex_node_nomatrix_def ex_guts_def by code_simp+


lemma ex_node_nomatrix_Inr:
  "SmiNodeData_ctor 1 (projr ex_guts) None (Some [(0, 1), (1, 2)]) None None None None
   = Inr (projr ex_node_nomatrix)"
proof -
  have "ex_node_nomatrix = Inr (projr ex_node_nomatrix)"
    using ex_node_nomatrix_ok by (cases ex_node_nomatrix) simp_all
  then show ?thesis unfolding ex_node_nomatrix_def[symmetric] .
qed


lemma ex_node_rup_strt: "rup_strt (projr ex_node) = 5"
  unfolding ex_node_def ex_guts_def by code_simp

lemma ex2_guts_ok: "\<not> isl ex2_guts"
  unfolding ex2_guts_def by code_simp

lemma ex2_guts_Inr:
  "gutsOfConstructor 1 2 2 [0, 1] [1] [[(1, 2)]]
     [(0, 0), (1, 1)] [(0, 9), (1, 9)] [(0, 1), (1, 1)] [(0, 0)] [(0, 5)] [] []
   = Inr (projr ex2_guts)"
proof -
  have "ex2_guts = Inr (projr ex2_guts)" using ex2_guts_ok by (cases ex2_guts) simp_all
  then show ?thesis unfolding ex2_guts_def[symmetric] .
qed

lemma ex2_node_ok: "\<not> isl ex2_node"
  unfolding ex2_node_def ex2_guts_def by code_simp

lemma ex2_node_Inr:
  "SmiNodeData_ctor 1 (projr ex2_guts) (Some [[(1, 3)]]) (Some [(1, 7)]) None None None None
   = Inr (projr ex2_node)"
proof -
  have "ex2_node = Inr (projr ex2_node)" using ex2_node_ok by (cases ex2_node) simp_all
  then show ?thesis unfolding ex2_node_def[symmetric] .
qed

lemma ex2_guts_fields:
  "ncol (projr ex2_guts) = 2" "nrow (projr ex2_guts) = 1" "nstag (projr ex2_guts) = 2"
  "colIn2Ex (projr ex2_guts) = [0, 1]" "stageColPtr (projr ex2_guts) = [0, 1, 2]"
  "nColInStage (projr ex2_guts) = [1, 1, 0]" "cdclo (projr ex2_guts) = [[0], [1]]"
  "colStage (projr ex2_guts) = [0, 1]" "colEx2In (projr ex2_guts) = [0, 1]"
  "rowStage (projr ex2_guts) = [1]" "stageRowPtr (projr ex2_guts) = [0, 0, 1]"
  "nRowInStage (projr ex2_guts) = [0, 1, 0]" "rowIn2Ex (projr ex2_guts) = [0]"
  unfolding ex2_guts_def by code_simp+

lemma ex_ctor_ok: "\<not> isl ex_ctor"
  unfolding ex_ctor_def by code_simp

lemma ex_ctor_Inr:
  "SmiCoreData_ctor 2 3 [10, 12] [11, 13] [20, 21, 22] [30, 31, 32] [40, 41, 42]
     [[(0, 5), (1, 2), (2, 7)], [(1, 3)]] 2 [1, 0, 1] [1, 0] [] [] = Inr (projr ex_ctor)"
proof -
  have "ex_ctor = Inr (projr ex_ctor)" using ex_ctor_ok by (cases ex_ctor) simp_all
  then show ?thesis unfolding ex_ctor_def[symmetric] .
qed

lemma ex_ctor_fields:
  "colIn2Ex (projr ex_ctor) = [1, 0, 2]" "stageColPtr (projr ex_ctor) = [0, 1, 3]"
  "nColInStage (projr ex_ctor) = [1, 2, 0]"
  unfolding ex_ctor_def by code_simp+

lemma ex_node_dense:
  "getDenseRow (projr ex_guts) (projr ex_node) 1
   = Inr ([5, 4, 0], (projr ex_node)\<lparr>dRowMap := [(1, [5, 4, 0])]\<rparr>)"
  "getDenseRow (projr ex_guts) ((projr ex_node)\<lparr>dRowMap := [(1, [5, 4, 0])]\<rparr>) 1
   = Inr ([5, 4, 0], (projr ex_node)\<lparr>dRowMap := [(1, [5, 4, 0])]\<rparr>)"
  "getRow (projr ex_node) 1 = Inr [(1, 4), (0, 5)]"
  unfolding ex_node_def ex_guts_def by code_simp+

lemma ex_node_stale:
  "getDenseRow (projr ex_guts) ((projr ex_node)\<lparr>dRowMap := [(1, [9, 9, 9])]\<rparr>) 1
   = Inr ([5, 4, 0], (projr ex_node)\<lparr>dRowMap := [(1, [5, 4, 0])]\<rparr>)"
  unfolding ex_node_def ex_guts_def by code_simp

lemma ex_guts_row: "getRow (nodes (projr ex_guts) ! 1) 1 = Inr [(0, 2), (1, 5), (2, 7)]"
  "nd_nrow (nodes (projr ex_guts) ! 1) = 1" "rowbeg (nodes (projr ex_guts) ! 1) = 1"
  unfolding ex_guts_def by code_simp+





section \<open>External and internal index maps\<close>

text \<open>
  Claim C3. After \<open>SmiCoreData\<close> construction the external and internal index maps are
  mutually inverse and consistent with the stages: for every external column index \<open>c\<close>,
  \<open>colIn2Ex(colEx2In(c)) = c\<close>; for every internal index \<open>i\<close> in the column range
  \<open>[stageColPtr[t], stageColPtr[t+1])\<close> of a stage \<open>t\<close>, the stage of \<open>colIn2Ex(i)\<close> is
  \<open>t\<close>; and the same for the rows. All the array reads involved are in bounds.
\<close>

theorem index_maps_inverse:
  assumes "gutsOfConstructor nrow' ncol' nstag' cstag rstag m dclo dcup dobj drlo drup ints bins
           = Inr core"
  shows "(\<forall>c<ncol'. rbind (getColInternalIndex core c) (getColExternalIndex core) = Inr c)
       \<and> (\<forall>r<nrow'. rbind (getRowInternalIndex core r) (getRowExternalIndex core) = Inr r)
       \<and> (\<forall>t<nstag'. \<forall>i. stageColPtr core ! t \<le> i \<and> i < stageColPtr core ! Suc t
             \<longrightarrow> rbind (getColExternalIndex core i) (getColStage core) = Inr t)
       \<and> (\<forall>t<nstag'. \<forall>i. stageRowPtr core ! t \<le> i \<and> i < stageRowPtr core ! Suc t
             \<longrightarrow> rbind (getRowExternalIndex core i) (getRowStage core) = Inr t)"
proof -
  note g = gutsOfConstructor_maps[OF assms]
  note l = maps_wf_lengths[OF g(1)]
  have c: "rbind (getColInternalIndex core c) (getColExternalIndex core) = Inr c" if "c < ncol'" for c
    using maps_wf_col_roundtrip[OF g(1), of c] that g(3) l
    by (simp add: getColInternalIndex_def getColExternalIndex_def)
  have r: "rbind (getRowInternalIndex core r) (getRowExternalIndex core) = Inr r" if "r < nrow'" for r
    using maps_wf_row_roundtrip[OF g(1), of r] that g(4) l
    by (simp add: getRowInternalIndex_def getRowExternalIndex_def)
  have cb: "rbind (getColExternalIndex core i) (getColStage core) = Inr t"
    if "t < nstag'" "stageColPtr core ! t \<le> i" "i < stageColPtr core ! Suc t" for t i
    using maps_wf_col_block[OF g(1), of t i] that g(2) l
    by (simp add: getColExternalIndex_def getColStage_def)
  have rb: "rbind (getRowExternalIndex core i) (getRowStage core) = Inr t"
    if "t < nstag'" "stageRowPtr core ! t \<le> i" "i < stageRowPtr core ! Suc t" for t i
    using maps_wf_row_block[OF g(1), of t i] that g(2) l
    by (simp add: getRowExternalIndex_def getRowStage_def)
  show ?thesis using c r cb rb by blast
qed

theorem index_maps_inverse_witness:
  "\<not> isl ex_guts
   \<and> rbind (getColInternalIndex (projr ex_guts) 0) (getColExternalIndex (projr ex_guts)) = Inr 0
   \<and> rbind (getRowInternalIndex (projr ex_guts) 1) (getRowExternalIndex (projr ex_guts)) = Inr 1
   \<and> rbind (getColExternalIndex (projr ex_guts) 2) (getColStage (projr ex_guts)) = Inr 1
   \<and> rbind (getRowExternalIndex (projr ex_guts) 0) (getRowStage (projr ex_guts)) = Inr 0"
proof -
  show ?thesis
    using index_maps_inverse[OF ex_guts_Inr] ex_guts_ok ex_guts_fields by simp
qed

section \<open>Filtering by stage\<close>

lemma node_filters_by_stage_parts:
  assumes "gutsOfConstructor nrow' ncol' nstag' cstag rstag m0 dclo0 dcup0 dobj0 drlo0 drup0
             ints bins = Inr core"
    and "SmiNodeData_ctor t core matrix dclo dcup dobj drlo drup = Inr node"
  shows "getColLower node = Inr (map (\<lambda>p. (colEx2In core ! fst p, snd p))
            (filter (\<lambda>p. colStage core ! fst p = stg node) (opt_entries dclo)))"
    and "getColUpper node = Inr (map (\<lambda>p. (colEx2In core ! fst p, snd p))
            (filter (\<lambda>p. colStage core ! fst p = stg node) (opt_entries dcup)))"
    and "getObjective node = Inr (map (\<lambda>p. (colEx2In core ! fst p, snd p))
            (filter (\<lambda>p. colStage core ! fst p = stg node) (opt_entries dobj)))"
    and "getRowLower node = Inr (map (\<lambda>p. (rowEx2In core ! fst p, snd p))
            (filter (\<lambda>p. rowStage core ! fst p = stg node) (opt_entries drlo)))"
    and "getRowUpper node = Inr (map (\<lambda>p. (rowEx2In core ! fst p, snd p))
            (filter (\<lambda>p. rowStage core ! fst p = stg node) (opt_entries drup)))"
    and "has_matrix node \<longleftrightarrow> 0 < getNumElements (opt_entries matrix)"
    and "has_matrix node \<longrightarrow>
           nd_nrow node = length (filter (\<lambda>r. rowStage core ! r = stg node) [0..<nrow core])
           \<and> (\<forall>k<nd_nrow node.
                 filter (\<lambda>r. rowStage core ! r = stg node) [0..<nrow core] ! k
                   < length (opt_entries matrix)
                 \<and> getRow node (rowbeg node + k)
                   = Inr (map (\<lambda>p. (colEx2In core ! fst p, snd p))
                       (opt_entries matrix
                          ! (filter (\<lambda>r. rowStage core ! r = stg node) [0..<nrow core] ! k))))"
proof -
  note g = gutsOfConstructor_maps[OF assms(1)]
  note c = SmiNodeData_ctor_Inr[OF assms(2)]
  note s = node_layout_segments[OF c(1)]
  show "getColLower node = Inr (map (\<lambda>p. (colEx2In core ! fst p, snd p))
            (filter (\<lambda>p. colStage core ! fst p = stg node) (opt_entries dclo)))"
    using s(1) c(2) by (simp add: stage_entries_def)
  show "getColUpper node = Inr (map (\<lambda>p. (colEx2In core ! fst p, snd p))
            (filter (\<lambda>p. colStage core ! fst p = stg node) (opt_entries dcup)))"
    using s(2) c(2) by (simp add: stage_entries_def)
  show "getObjective node = Inr (map (\<lambda>p. (colEx2In core ! fst p, snd p))
            (filter (\<lambda>p. colStage core ! fst p = stg node) (opt_entries dobj)))"
    using s(3) c(2) by (simp add: stage_entries_def)
  show "getRowLower node = Inr (map (\<lambda>p. (rowEx2In core ! fst p, snd p))
            (filter (\<lambda>p. rowStage core ! fst p = stg node) (opt_entries drlo)))"
    using s(4) c(2) by (simp add: stage_entries_def)
  show "getRowUpper node = Inr (map (\<lambda>p. (rowEx2In core ! fst p, snd p))
            (filter (\<lambda>p. rowStage core ! fst p = stg node) (opt_entries drup)))"
    using s(5) c(2) by (simp add: stage_entries_def)
  show "has_matrix node \<longleftrightarrow> 0 < getNumElements (opt_entries matrix)" by (rule c(12))
  show "has_matrix node \<longrightarrow>
           nd_nrow node = length (filter (\<lambda>r. rowStage core ! r = stg node) [0..<nrow core])
           \<and> (\<forall>k<nd_nrow node.
                 filter (\<lambda>r. rowStage core ! r = stg node) [0..<nrow core] ! k
                   < length (opt_entries matrix)
                 \<and> getRow node (rowbeg node + k)
                   = Inr (map (\<lambda>p. (colEx2In core ! fst p, snd p))
                       (opt_entries matrix
                          ! (filter (\<lambda>r. rowStage core ! r = stg node) [0..<nrow core] ! k))))"
  proof
    assume hm: "has_matrix node"
    let ?mem = "filter (\<lambda>r. rowStage core ! r = stg node) [0..<nrow core]"
    have lr: "length (rowStage core) = nrow core" using g(1) by (simp add: maps_wf_def)
    have mem: "map (\<lambda>k. rowIn2Ex core ! (stageRowPtr core ! t + k)) [0..<nRowInStage core ! t] = ?mem"
      using maps_wf_stage_rows[OF g(1) c(4)] c(2) lr by (simp add: stage_members_def)
    then have len: "nd_nrow node = length ?mem"
      using c(8) by (metis length_map length_upt diff_zero)
    from hm c(12) obtain mm where mm: "matrix = Some mm" "0 < getNumElements mm"
      by (cases matrix) (auto simp: opt_entries_def getNumElements_def)
    have rows: "node_rows core t matrix
                = map (\<lambda>k. map (\<lambda>p. (colEx2In core ! fst p, snd p)) (mm ! (?mem ! k)))
                    [0..<nRowInStage core ! t]"
    proof -
      have "rowIn2Ex core ! (stageRowPtr core ! t + k) = ?mem ! k" if "k < nRowInStage core ! t" for k
        using arg_cong[OF mem, of "\<lambda>l. l ! k"] that by simp
      then show ?thesis using mm by (simp add: node_rows_def)
    qed
    have inr: "?mem ! k < length mm" if "k < nd_nrow node" for k
    proof -
      from assms(2) mm c(4,6) obtain b st i where
        "copy_matrix_rows core mm (stageRowPtr core ! t) (nRowInStage core ! t)
           (getNumElements mm + numElementsOpt dclo + numElementsOpt dcup + numElementsOpt dobj
             + numElementsOpt drlo + numElementsOpt drup)
           ([], replicate (nRowInStage core ! t + 6) 0, 0) = Inr (b, st, i)"
        by (auto simp: SmiNodeData_ctor_def rbind_eq_Inr getNumRows_def getNumCols_def
              getRowStart_def getColStart_def Let_def add.commute split: prod.splits)
      from copy_matrix_rows_Inr(2)[OF this] that c(8)
      have "rowIn2Ex core ! (stageRowPtr core ! t + k) < length mm" by simp
      moreover have "rowIn2Ex core ! (stageRowPtr core ! t + k) = ?mem ! k"
        using arg_cong[OF mem, of "\<lambda>l. l ! k"] that c(8) by simp
      ultimately show ?thesis by simp
    qed
    have row: "getRow node (rowbeg node + k)
               = Inr (map (\<lambda>p. (colEx2In core ! fst p, snd p)) (mm ! (?mem ! k)))"
      if "k < nd_nrow node" for k
      using node_layout_row(1)[OF c(1) hm, of k] that c(13) hm c(8) by (simp add: rows)
    show "nd_nrow node = length ?mem
           \<and> (\<forall>k<nd_nrow node. ?mem ! k < length (opt_entries matrix)
                 \<and> getRow node (rowbeg node + k)
                   = Inr (map (\<lambda>p. (colEx2In core ! fst p, snd p)) (opt_entries matrix ! (?mem ! k))))"
      using len inr row mm by (simp add: opt_entries_def)
  qed
qed

text \<open>
  Claim C2. The constructor of \<open>SmiNodeData\<close> filters exactly by stage. On a constructed
  core, the stored entries of each of the five bound and objective categories are the
  entries of the corresponding input vector whose column (or row) has the node's stage,
  in the order of the input; the stored matrix rows are the input rows whose row has the
  node's stage, in the order of their external indices; and every stored index is the
  internal index that the core gives to the external one. The rows are stored exactly
  when the input matrix has an element (the flag \<open>has_matrix_\<close>); a matrix without
  elements stores no rows.
\<close>

theorem node_filters_by_stage:
  assumes "gutsOfConstructor nrow' ncol' nstag' cstag rstag m0 dclo0 dcup0 dobj0 drlo0 drup0
             ints bins = Inr core"
    and "SmiNodeData_ctor t core matrix dclo dcup dobj drlo drup = Inr node"
  shows "(getColLower node = Inr (map (\<lambda>p. (colEx2In core ! fst p, snd p))
            (filter (\<lambda>p. colStage core ! fst p = stg node) (opt_entries dclo))))
     \<and> (getColUpper node = Inr (map (\<lambda>p. (colEx2In core ! fst p, snd p))
            (filter (\<lambda>p. colStage core ! fst p = stg node) (opt_entries dcup))))
     \<and> (getObjective node = Inr (map (\<lambda>p. (colEx2In core ! fst p, snd p))
            (filter (\<lambda>p. colStage core ! fst p = stg node) (opt_entries dobj))))
     \<and> (getRowLower node = Inr (map (\<lambda>p. (rowEx2In core ! fst p, snd p))
            (filter (\<lambda>p. rowStage core ! fst p = stg node) (opt_entries drlo))))
     \<and> (getRowUpper node = Inr (map (\<lambda>p. (rowEx2In core ! fst p, snd p))
            (filter (\<lambda>p. rowStage core ! fst p = stg node) (opt_entries drup))))
     \<and> (has_matrix node \<longleftrightarrow> 0 < getNumElements (opt_entries matrix))
     \<and> (has_matrix node \<longrightarrow>
           nd_nrow node = length (filter (\<lambda>r. rowStage core ! r = stg node) [0..<nrow core])
           \<and> (\<forall>k<nd_nrow node.
                 filter (\<lambda>r. rowStage core ! r = stg node) [0..<nrow core] ! k
                   < length (opt_entries matrix)
                 \<and> getRow node (rowbeg node + k)
                   = Inr (map (\<lambda>p. (colEx2In core ! fst p, snd p))
                       (opt_entries matrix
                          ! (filter (\<lambda>r. rowStage core ! r = stg node) [0..<nrow core] ! k)))))"
  using node_filters_by_stage_parts[OF assms] by blast

theorem node_filters_by_stage_witness:
  "\<not> isl ex_guts \<and> \<not> isl ex_node
   \<and> has_matrix (projr ex_node)
   \<and> getColLower (projr ex_node) = Inr [(1, 1)]
   \<and> getColUpper (projr ex_node) = Inr []
   \<and> getRow (projr ex_node) (rowbeg (projr ex_node) + 0) = Inr [(1, 4), (0, 5)]"
proof -
  note th = node_filters_by_stage[OF ex_guts_Inr ex_node_Inr]
  have "0 < getNumElements (opt_entries (Some [[(0, 4), (1, 5::real)], []]))"
    by (simp add: opt_entries_def getNumElements_def)
  with th have hm: "has_matrix (projr ex_node)" by blast
  have n: "nd_nrow (projr ex_node) = 1"
    using ex_node_fields by simp
  have "getColLower (projr ex_node) = Inr [(1, 1)]" "getColUpper (projr ex_node) = Inr []"
    using th ex_guts_fields ex_node_fields by (simp_all add: opt_entries_def)
  moreover have "getRow (projr ex_node) (rowbeg (projr ex_node) + 0) = Inr [(1, 4), (0, 5)]"
  proof -
    from th hm n have "getRow (projr ex_node) (rowbeg (projr ex_node) + 0)
       = Inr (map (\<lambda>p. (colEx2In (projr ex_guts) ! fst p, snd p))
           (opt_entries (Some [[(0, 4), (1, 5)], []])
              ! (filter (\<lambda>r. rowStage (projr ex_guts) ! r = stg (projr ex_node))
                   [0..<nrow (projr ex_guts)] ! 0)))"
      by simp
    then show ?thesis using ex_guts_fields ex_node_fields
      by (simp add: opt_entries_def upt_conv_Cons)
  qed
  ultimately show ?thesis using ex_guts_ok ex_node_ok hm by simp
qed

section \<open>The partition of a node's buffer\<close>

text \<open>
  Claim C10 as stated: the \<open>nrow + 1\<close> matrix row starts followed by the five category
  markers, that is all \<open>nrow + 1 + 5\<close> entries of \<open>strt_\<close>, are monotone and end at the
  number of entries stored. A node constructed without a matrix records only six offsets,
  \<open>strt_[0..5]\<close>, and leaves the other \<open>nrow\<close> entries at zero: the array is then neither
  monotone nor does its last entry give the number of stored entries.
\<close>

theorem node_offsets_counterexample:
  "\<not> isl ex_node_nomatrix
   \<and> length (strt (projr ex_node_nomatrix)) = nd_nrow (projr ex_node_nomatrix) + 1 + 5
   \<and> \<not> sorted (strt (projr ex_node_nomatrix))
   \<and> last (strt (projr ex_node_nomatrix)) \<noteq> length (buf (projr ex_node_nomatrix))"
  using ex_node_nomatrix_ok by (simp add: ex_node_nomatrix_fields)

text \<open>
  Claim C10, amended. The offsets the constructor records are the first
  \<open>rup_strt_ + 2\<close> entries of \<open>strt_\<close>: all \<open>nrow + 1 + 5\<close> when the node has a matrix, six
  when it has none. They begin at 0, are monotone non-decreasing, and the last of them is
  the number of entries stored; the segments between consecutive offsets, concatenated,
  are the buffer.
\<close>

theorem node_offsets_partition:
  assumes "SmiNodeData_ctor t core matrix dclo dcup dobj drlo drup = Inr node"
  shows "strt node ! 0 = 0
       \<and> rup_strt node + 2 \<le> length (strt node)
       \<and> sorted (take (rup_strt node + 2) (strt node))
       \<and> strt node ! (rup_strt node + 1) = length (buf node)
       \<and> concat (map (\<lambda>i. take (strt node ! Suc i - strt node ! i) (drop (strt node ! i) (buf node)))
                  [0..<rup_strt node + 1]) = buf node
       \<and> (has_matrix node \<longrightarrow> rup_strt node + 2 = nd_nrow node + 6
                               \<and> length (strt node) = nd_nrow node + 6)
       \<and> (\<not> has_matrix node \<longrightarrow> rup_strt node + 2 = 6)"
proof -
  note c = SmiNodeData_ctor_Inr[OF assms]
  note o = node_layout_offsets[OF c(1)]
  let ?rows = "node_rows core t matrix"
  have r: "rup_strt node + 2 = length ?rows + 6" "rup_strt node + 1 = length ?rows + 5"
    "Suc (rup_strt node + 1) = length ?rows + 6"
    using o(4) by simp_all
  have q1: "rup_strt node + 1 < length (strt node)" using o(5) r by simp
  have q2: "sorted (take (Suc (rup_strt node + 1)) (strt node))" by (subst r(3)) (rule o(2))
  have q3: "strt node ! (rup_strt node + 1) \<le> length (buf node)" using o(3) unfolding r by simp
  have e: "strt node ! (rup_strt node + 1) = length (buf node)" using o(3) unfolding r .
  have "concat (map (\<lambda>i. take (strt node ! Suc i - strt node ! i) (drop (strt node ! i) (buf node)))
                  [0..<rup_strt node + 1]) = take (strt node ! (rup_strt node + 1)) (buf node)"
    by (rule concat_slices[OF q1 o(1) q2 q3])
  then have p: "concat (map (\<lambda>i. take (strt node ! Suc i - strt node ! i) (drop (strt node ! i) (buf node)))
                  [0..<rup_strt node + 1]) = buf node"
    unfolding e by (simp only: take_all[OF order_refl])
  have m1: "has_matrix node \<longrightarrow> rup_strt node + 2 = nd_nrow node + 6
                               \<and> length (strt node) = nd_nrow node + 6"
    using c(13,15) r(1) by simp
  have m2: "\<not> has_matrix node \<longrightarrow> rup_strt node + 2 = 6"
    using c(14) r(1) by simp
  show ?thesis using o(1) q1 q2 e p m1 m2 by simp
qed

theorem node_offsets_partition_witness:
  "\<not> isl ex_node \<and> \<not> isl ex_node_nomatrix
   \<and> sorted (take (5 + 2) (strt (projr ex_node)))
   \<and> strt (projr ex_node) ! (5 + 1) = length (buf (projr ex_node))
   \<and> sorted (take (4 + 2) (strt (projr ex_node_nomatrix)))
   \<and> strt (projr ex_node_nomatrix) ! (4 + 1) = length (buf (projr ex_node_nomatrix))"
proof -
  note r = ex_node_rup_strt
  note r' = ex_node_nomatrix_fields(5)
  from node_offsets_partition[OF ex_node_Inr]
  have a: "sorted (take (rup_strt (projr ex_node) + 2) (strt (projr ex_node)))"
    "strt (projr ex_node) ! (rup_strt (projr ex_node) + 1) = length (buf (projr ex_node))"
    by blast+
  from node_offsets_partition[OF ex_node_nomatrix_Inr]
  have b: "sorted (take (rup_strt (projr ex_node_nomatrix) + 2) (strt (projr ex_node_nomatrix)))"
    "strt (projr ex_node_nomatrix) ! (rup_strt (projr ex_node_nomatrix) + 1)
     = length (buf (projr ex_node_nomatrix))"
    by blast+
  show ?thesis
    using a[unfolded r] b[unfolded r'] ex_node_ok ex_node_nomatrix_ok by blast
qed

section \<open>Round trip of the dense stage arrays\<close>

text \<open>
  Claim C4. For every stage \<open>t\<close> of a core built by the constructor from the dense bound
  arrays of a problem, the dense column lower bounds of the stage, as the core copies them
  out and as the combine step of the stage's core node reconstructs them, hold at the
  stage-local position \<open>j\<close> the constructor's \<open>colLower\<close> value of the external column
  \<open>colIn2Ex(stageColPtr[t] + j)\<close>; these columns are exactly the columns labelled \<open>t\<close>,
  each once, so no bound is dropped or duplicated. The other four dense arrays of the
  stage are copied out in the same way.
\<close>

theorem dense_stage_roundtrip:
  assumes c: "SmiCoreData_ctor nrow' ncol' rowLower rowUpper colLower colUpper objc m
                nstag' cstag rstag ints bins = Inr core"
    and t: "t < nstag'"
  shows "SmiCoreData_copyColLower core t
           = Inr (map (\<lambda>j. colLower ! (colIn2Ex core ! (stageColPtr core ! t + j)))
                    [0..<nColInStage core ! t])
       \<and> copyColLower core (nodes core ! t)
           = Inr (map (\<lambda>j. colLower ! (colIn2Ex core ! (stageColPtr core ! t + j)))
                    [0..<nColInStage core ! t])
       \<and> map (\<lambda>j. colIn2Ex core ! (stageColPtr core ! t + j)) [0..<nColInStage core ! t]
           = filter (\<lambda>c. cstag ! c = t) [0..<ncol']
       \<and> SmiCoreData_copyColUpper core t
           = Inr (map (\<lambda>j. colUpper ! (colIn2Ex core ! (stageColPtr core ! t + j)))
                    [0..<nColInStage core ! t])
       \<and> SmiCoreData_copyObjective core t
           = Inr (map (\<lambda>j. objc ! (colIn2Ex core ! (stageColPtr core ! t + j)))
                    [0..<nColInStage core ! t])
       \<and> SmiCoreData_copyRowLower core t
           = Inr (map (\<lambda>j. rowLower ! (rowIn2Ex core ! (stageRowPtr core ! t + j)))
                    [0..<nRowInStage core ! t])
       \<and> SmiCoreData_copyRowUpper core t
           = Inr (map (\<lambda>j. rowUpper ! (rowIn2Ex core ! (stageRowPtr core ! t + j)))
                    [0..<nRowInStage core ! t])"
proof -
  note g = SmiCoreData_ctor_guts[OF c]
  note mp = gutsOfConstructor_maps[OF g(1)]
  note st = gutsOfConstructor_stages[OF g(1)]
  note cp = core_stage_copy[OF g(1) t]
  note cn = core_node_copy[OF g(1) t]
  note ml = maps_wf_lengths[OF mp(1)]
  have tn: "t < nstag core" using t mp(2) by simp
  have ok: "core_stage_ok core m (zip [0..<ncol'] colLower) (zip [0..<ncol'] colUpper)
              (zip [0..<ncol'] objc) (zip [0..<nrow'] rowLower) (zip [0..<nrow'] rowUpper) t"
    using st(7) t by simp
  have pc: "stageColPtr core ! Suc t = stageColPtr core ! t + nColInStage core ! t"
    and pr: "stageRowPtr core ! Suc t = stageRowPtr core ! t + nRowInStage core ! t"
    using mp(1) tn by (simp_all add: maps_wf_def below_Suc del: upt_Suc)
  have cr: "\<forall>j<nColInStage core ! t. colIn2Ex core ! (stageColPtr core ! t + j) < ncol'"
    using maps_wf_col_block(2)[OF mp(1) tn] pc mp(3) by simp
  have rr: "\<forall>j<nRowInStage core ! t. rowIn2Ex core ! (stageRowPtr core ! t + j) < nrow'"
    using maps_wf_row_block(2)[OF mp(1) tn] pr mp(4) by simp
  have a1: "cdclo core ! t = map (\<lambda>j. colLower ! (colIn2Ex core ! (stageColPtr core ! t + j)))
                    [0..<nColInStage core ! t]"
    using ok overlay_full[OF g(4) cr] by (simp add: core_stage_ok_def)
  have a2: "cdcup core ! t = map (\<lambda>j. colUpper ! (colIn2Ex core ! (stageColPtr core ! t + j)))
                    [0..<nColInStage core ! t]"
    using ok overlay_full[OF g(5) cr] by (simp add: core_stage_ok_def)
  have a3: "cdobj core ! t = map (\<lambda>j. objc ! (colIn2Ex core ! (stageColPtr core ! t + j)))
                    [0..<nColInStage core ! t]"
    using ok overlay_full[OF g(6) cr] by (simp add: core_stage_ok_def)
  have a4: "cdrlo core ! t = map (\<lambda>j. rowLower ! (rowIn2Ex core ! (stageRowPtr core ! t + j)))
                    [0..<nRowInStage core ! t]"
    using ok overlay_full[OF g(2) rr] by (simp add: core_stage_ok_def)
  have a5: "cdrup core ! t = map (\<lambda>j. rowUpper ! (rowIn2Ex core ! (stageRowPtr core ! t + j)))
                    [0..<nRowInStage core ! t]"
    using ok overlay_full[OF g(3) rr] by (simp add: core_stage_ok_def)
  have mem: "map (\<lambda>j. colIn2Ex core ! (stageColPtr core ! t + j)) [0..<nColInStage core ! t]
           = filter (\<lambda>c. cstag ! c = t) [0..<ncol']"
  proof -
    have "t < length (nColInStage core)" using ml tn by simp
    from maps_wf_stage_cols[OF mp(1) this]
    have "map (\<lambda>j. colIn2Ex core ! (stageColPtr core ! t + j)) [0..<nColInStage core ! t]
          = filter (\<lambda>c. take ncol' cstag ! c = t) [0..<ncol']"
      using mp(5,7) by (simp add: stage_members_def)
    also have "\<dots> = filter (\<lambda>c. cstag ! c = t) [0..<ncol']"
      by (rule filter_cong) simp_all
    finally show ?thesis .
  qed
  show ?thesis using cp(1-5) cn(3) a1 a2 a3 a4 a5 mem by simp
qed

theorem dense_stage_roundtrip_witness:
  "\<not> isl ex_ctor
   \<and> SmiCoreData_copyColLower (projr ex_ctor) 1 = Inr [20, 22]
   \<and> copyColLower (projr ex_ctor) (nodes (projr ex_ctor) ! 1) = Inr [20, 22]"
proof -
  have t: "(1::nat) < 2" by simp
  from dense_stage_roundtrip[OF ex_ctor_Inr t]
  have "SmiCoreData_copyColLower (projr ex_ctor) 1
          = Inr (map (\<lambda>j. [20, 21, 22] ! (colIn2Ex (projr ex_ctor) ! (stageColPtr (projr ex_ctor) ! 1 + j)))
                    [0..<nColInStage (projr ex_ctor) ! 1])"
    "copyColLower (projr ex_ctor) (nodes (projr ex_ctor) ! 1)
          = Inr (map (\<lambda>j. [20, 21, 22] ! (colIn2Ex (projr ex_ctor) ! (stageColPtr (projr ex_ctor) ! 1 + j)))
                    [0..<nColInStage (projr ex_ctor) ! 1])"
    by blast+
  then show ?thesis using ex_ctor_ok by (simp add: ex_ctor_fields upt_conv_Cons)
qed

section \<open>The combine step for trivial deltas\<close>

text \<open>
  Claim C5. For every core node (the node of stage \<open>t\<close> of a constructed core, for which
  \<open>isCoreNode\<close> is true) and for every constructed node whose sparse delta of a category
  is empty, the operations \<open>copyRowLower\<close>, \<open>copyRowUpper\<close>, \<open>copyColLower\<close>,
  \<open>copyColUpper\<close> and \<open>copyObjective\<close> write exactly the dense stage array of the core
  for the node's stage: no entry is changed, added or dropped. For the core node this is
  the guard on \<open>isCoreNode_\<close> in \<open>combineWithCoreDoubleArray\<close>; for the empty delta it is
  the combine rule applied to no entries.
\<close>

theorem combine_identity:
  assumes g: "gutsOfConstructor nrow' ncol' nstag' cstag rstag m dclo0 dcup0 dobj0 drlo0 drup0
                ints bins = Inr core"
    and t: "t < nstag'"
  shows "isCoreNode (nodes core ! t) \<and> stg (nodes core ! t) = t
       \<and> SmiCoreData_copyRowLower core t = Inr (cdrlo core ! t)
       \<and> SmiCoreData_copyRowUpper core t = Inr (cdrup core ! t)
       \<and> SmiCoreData_copyColLower core t = Inr (cdclo core ! t)
       \<and> SmiCoreData_copyColUpper core t = Inr (cdcup core ! t)
       \<and> SmiCoreData_copyObjective core t = Inr (cdobj core ! t)
       \<and> copyRowLower core (nodes core ! t) = Inr (cdrlo core ! t)
       \<and> copyRowUpper core (nodes core ! t) = Inr (cdrup core ! t)
       \<and> copyColLower core (nodes core ! t) = Inr (cdclo core ! t)
       \<and> copyColUpper core (nodes core ! t) = Inr (cdcup core ! t)
       \<and> copyObjective core (nodes core ! t) = Inr (cdobj core ! t)
       \<and> (\<forall>matrix dclo dcup dobj drlo drup node.
             SmiNodeData_ctor t core matrix dclo dcup dobj drlo drup = Inr node \<longrightarrow>
               (getRowLower node = Inr [] \<longrightarrow> copyRowLower core node = Inr (cdrlo core ! t))
             \<and> (getRowUpper node = Inr [] \<longrightarrow> copyRowUpper core node = Inr (cdrup core ! t))
             \<and> (getColLower node = Inr [] \<longrightarrow> copyColLower core node = Inr (cdclo core ! t))
             \<and> (getColUpper node = Inr [] \<longrightarrow> copyColUpper core node = Inr (cdcup core ! t))
             \<and> (getObjective node = Inr [] \<longrightarrow> copyObjective core node = Inr (cdobj core ! t)))"
proof -
  note cp = core_stage_copy[OF g t]
  note cn = core_node_copy[OF g t]
  have e: "(getRowLower node = Inr [] \<longrightarrow> copyRowLower core node = Inr (cdrlo core ! t))
         \<and> (getRowUpper node = Inr [] \<longrightarrow> copyRowUpper core node = Inr (cdrup core ! t))
         \<and> (getColLower node = Inr [] \<longrightarrow> copyColLower core node = Inr (cdclo core ! t))
         \<and> (getColUpper node = Inr [] \<longrightarrow> copyColUpper core node = Inr (cdcup core ! t))
         \<and> (getObjective node = Inr [] \<longrightarrow> copyObjective core node = Inr (cdobj core ! t))"
    if n: "SmiNodeData_ctor t core matrix dclo dcup dobj drlo drup = Inr node"
    for matrix dclo dcup dobj drlo drup node
  proof -
    have s: "stg node = t" by (rule SmiNodeData_ctor_Inr(2)[OF n])
    show ?thesis
      by (simp add: copyRowLower_def copyRowUpper_def copyColLower_def copyColUpper_def
            copyObjective_def s cp combineWithCoreDoubleArray_def)
  qed
  show ?thesis using cp(1-5) cn e by blast
qed

theorem combine_identity_witness:
  "\<not> isl ex_guts \<and> \<not> isl ex_node
   \<and> isCoreNode (nodes (projr ex_guts) ! 1)
   \<and> copyColLower (projr ex_guts) (nodes (projr ex_guts) ! 1) = Inr [20, 22]
   \<and> SmiCoreData_copyColLower (projr ex_guts) 1 = Inr [20, 22]
   \<and> getColUpper (projr ex_node) = Inr []
   \<and> copyColUpper (projr ex_guts) (projr ex_node) = Inr [30, 32]
   \<and> SmiCoreData_copyColUpper (projr ex_guts) 1 = Inr [30, 32]"
proof -
  have t: "(1::nat) < 2" by simp
  note th = combine_identity[OF ex_guts_Inr t]
  have cd: "cdclo (projr ex_guts) ! 1 = [20, 22]" "cdcup (projr ex_guts) ! 1 = [30, 32]"
    unfolding ex_guts_def by code_simp+
  have e: "getColUpper (projr ex_node) = Inr []"
    unfolding ex_node_def ex_guts_def by code_simp
  from th have "isCoreNode (nodes (projr ex_guts) ! 1)"
    "copyColLower (projr ex_guts) (nodes (projr ex_guts) ! 1) = Inr (cdclo (projr ex_guts) ! 1)"
    "SmiCoreData_copyColLower (projr ex_guts) 1 = Inr (cdclo (projr ex_guts) ! 1)"
    "SmiCoreData_copyColUpper (projr ex_guts) 1 = Inr (cdcup (projr ex_guts) ! 1)"
    by blast+
  moreover from th ex_node_Inr e
  have "copyColUpper (projr ex_guts) (projr ex_node) = Inr (cdcup (projr ex_guts) ! 1)"
    by blast
  ultimately show ?thesis using ex_guts_ok ex_node_ok e cd by simp
qed

section \<open>Overwrite-wins combine\<close>

text \<open>
  Claim C1. For every node that is not a core node, built on a constructed core from a
  sparse vector \<open>V\<close> for stage \<open>t\<close>, \<open>copyColLower\<close> produces the dense lower bounds of
  stage \<open>t\<close> of the core in which the position of every column present in \<open>V\<close> holds the
  value of \<open>V\<close> (the last one, should \<open>V\<close> name a column twice) and every other position
  is unchanged; \<open>copyColUpper\<close>, \<open>copyObjective\<close>, \<open>copyRowLower\<close> and \<open>copyRowUpper\<close> do
  the same with their vectors (\<open>overlay\<close>), and the combine of a dense core row with a
  sparse row replaces the entries present in the sparse row. In the example of the spec
  the delta coefficient 3 over the core coefficient 2 combines to 3. The combine rule
  itself is the one modelled from the spec.
\<close>

theorem overwrite_wins_combine:
  assumes g: "gutsOfConstructor nrow' ncol' nstag' cstag rstag m dclo0 dcup0 dobj0 drlo0 drup0
                ints bins = Inr core"
    and n: "SmiNodeData_ctor t core matrix dclo dcup dobj drlo drup = Inr node"
    and t: "t < nstag'"
  shows "\<not> isCoreNode node
       \<and> SmiCoreData_copyColLower core t = Inr (cdclo core ! t)
       \<and> length (cdclo core ! t) = nColInStage core ! t
       \<and> copyColLower core node
           = Inr (map (\<lambda>j. case map_of (rev (opt_entries dclo))
                                (colIn2Ex core ! (stageColPtr core ! t + j)) of
                             Some v \<Rightarrow> v | None \<Rightarrow> cdclo core ! t ! j)
                    [0..<nColInStage core ! t])
       \<and> copyColUpper core node
           = Inr (overlay (colIn2Ex core) (stageColPtr core ! t) (opt_entries dcup) (cdcup core ! t))
       \<and> copyObjective core node
           = Inr (overlay (colIn2Ex core) (stageColPtr core ! t) (opt_entries dobj) (cdobj core ! t))
       \<and> copyRowLower core node
           = Inr (overlay (rowIn2Ex core) (stageRowPtr core ! t) (opt_entries drlo) (cdrlo core ! t))
       \<and> copyRowUpper core node
           = Inr (overlay (rowIn2Ex core) (stageRowPtr core ! t) (opt_entries drup) (cdrup core ! t))
       \<and> (\<forall>dr cpv. ncol core \<le> length dr \<and> (\<forall>p\<in>set cpv. fst p < ncol core) \<longrightarrow>
             combineWithDenseCoreRow core node dr cpv
               = Inr (map (\<lambda>i. case map_of (rev cpv) i of Some v \<Rightarrow> v | None \<Rightarrow> dr ! i)
                        [0..<ncol core]))"
proof -
  note cp = core_stage_copy[OF g t]
  note sc = scenario_node_copy[OF g n t]
  have nc: "\<not> isCoreNode node" by (rule SmiNodeData_ctor_Inr(3)[OF n])
  have cl: "copyColLower core node
           = Inr (map (\<lambda>j. case map_of (rev (opt_entries dclo))
                                (colIn2Ex core ! (stageColPtr core ! t + j)) of
                             Some v \<Rightarrow> v | None \<Rightarrow> cdclo core ! t ! j)
                    [0..<nColInStage core ! t])"
    using sc(3) cp(8) by (simp add: overlay_def)
  have row: "combineWithDenseCoreRow core node dr cpv
               = Inr (map (\<lambda>i. case map_of (rev cpv) i of Some v \<Rightarrow> v | None \<Rightarrow> dr ! i)
                        [0..<ncol core])"
    if "ncol core \<le> length dr" and "\<forall>p\<in>set cpv. fst p < ncol core" for dr cpv
  proof -
    have "\<forall>p\<in>set cpv. fst p < length (take (ncol core) dr)" using that by simp
    from scatter_char[OF this] that(1)
    have "scatter (take (ncol core) dr) cpv
          = Inr (map (\<lambda>i. case map_of (rev cpv) i of Some v \<Rightarrow> v | None \<Rightarrow> take (ncol core) dr ! i)
                   [0..<ncol core])"
      by (simp add: min_def)
    moreover have "map (\<lambda>i. case map_of (rev cpv) i of Some v \<Rightarrow> v | None \<Rightarrow> take (ncol core) dr ! i)
                   [0..<ncol core]
          = map (\<lambda>i. case map_of (rev cpv) i of Some v \<Rightarrow> v | None \<Rightarrow> dr ! i) [0..<ncol core]"
      by (rule map_cong[OF refl]) (simp split: option.splits)
    ultimately show ?thesis using that(1)
      by (simp add: combineWithDenseCoreRow_def ProcessDenseRow_def)
  qed
  show ?thesis using nc cp(3,8) cl sc(1,2,4,5) row by blast
qed

theorem overwrite_wins_combine_witness:
  "\<not> isl ex2_guts \<and> \<not> isl ex2_node
   \<and> SmiCoreData_copyColLower (projr ex2_guts) 1 = Inr [1]
   \<and> copyColLower (projr ex2_guts) (projr ex2_node) = Inr [7]
   \<and> rbind (getDenseRow (projr ex2_guts) (nodes (projr ex2_guts) ! 1) 0) (\<lambda>r. Inr (fst r))
       = Inr [0, 2]
   \<and> getRow (projr ex2_node) 0 = Inr [(1, 3)]
   \<and> combineWithDenseCoreRow (projr ex2_guts) (projr ex2_node) [0, 2] [(1, 3)] = Inr [0, 3]"
proof -
  have t: "(1::nat) < 2" by simp
  note th = overwrite_wins_combine[OF ex2_guts_Inr ex2_node_Inr t]
  have d: "rbind (getDenseRow (projr ex2_guts) (nodes (projr ex2_guts) ! 1) 0) (\<lambda>r. Inr (fst r))
       = Inr [0, 2]"
    unfolding ex2_guts_def by code_simp
  have r: "getRow (projr ex2_node) 0 = Inr [(1, 3)]"
    unfolding ex2_node_def ex2_guts_def by code_simp
  from th have "SmiCoreData_copyColLower (projr ex2_guts) 1 = Inr (cdclo (projr ex2_guts) ! 1)"
    by blast
  then have a: "SmiCoreData_copyColLower (projr ex2_guts) 1 = Inr [1]"
    by (simp add: ex2_guts_fields)
  from th have "copyColLower (projr ex2_guts) (projr ex2_node)
           = Inr (map (\<lambda>j. case map_of (rev (opt_entries (Some [(1, 7)])))
                                (colIn2Ex (projr ex2_guts) ! (stageColPtr (projr ex2_guts) ! 1 + j)) of
                             Some v \<Rightarrow> v | None \<Rightarrow> cdclo (projr ex2_guts) ! 1 ! j)
                    [0..<nColInStage (projr ex2_guts) ! 1])"
    by blast
  then have b: "copyColLower (projr ex2_guts) (projr ex2_node) = Inr [7]"
    by (simp add: ex2_guts_fields opt_entries_def)
  from th have "ncol (projr ex2_guts) \<le> length [0, 2::real]
                 \<and> (\<forall>p\<in>set [(1, 3::real)]. fst p < ncol (projr ex2_guts)) \<longrightarrow>
             combineWithDenseCoreRow (projr ex2_guts) (projr ex2_node) [0, 2] [(1, 3)]
               = Inr (map (\<lambda>i. case map_of (rev [(1, 3)]) i of Some v \<Rightarrow> v | None \<Rightarrow> [0, 2] ! i)
                        [0..<ncol (projr ex2_guts)])"
    by blast
  then have c: "combineWithDenseCoreRow (projr ex2_guts) (projr ex2_node) [0, 2] [(1, 3)] = Inr [0, 3]"
    by (simp add: ex2_guts_fields upt_conv_Cons)
  show ?thesis using ex2_guts_ok ex2_node_ok a b d r c by simp
qed

section \<open>getDenseRow\<close>

text \<open>
  Claim C6. For every row index \<open>i\<close> held by a node (a core node of a constructed core,
  or a node built on it by the constructor of \<open>SmiNodeData\<close>), \<open>getDenseRow(i)\<close> returns
  a dense array whose length is the number of columns of the core, in which the entries
  the node stores for row \<open>i\<close> are scattered at their internal column indices and all
  other positions are zero; a second call on the node returns the same array. This
  holds whatever the node's map of dense rows holds when \<open>getDenseRow\<close> is called: an
  array kept for the row from an earlier call, and overwritten since, is filled anew.
\<close>

theorem getDenseRow_correct:
  assumes g: "gutsOfConstructor nrow' ncol' nstag' cstag rstag m dclo0 dcup0 dobj0 drlo0 drup0
                ints bins = Inr core"
    and t: "t < nstag'"
  shows "(\<forall>d. \<forall>k<nd_nrow (nodes core ! t).
            getDenseRow_spec core ((nodes core ! t)\<lparr>dRowMap := d\<rparr>)
              (rowbeg (nodes core ! t) + k))
       \<and> (\<forall>matrix dclo dcup dobj drlo drup node d.
             SmiNodeData_ctor t core matrix dclo dcup dobj drlo drup = Inr node \<longrightarrow>
               (\<forall>k<nd_nrow node.
                  getDenseRow_spec core (node\<lparr>dRowMap := d\<rparr>) (rowbeg node + k)))"
proof -
  note mp = gutsOfConstructor_maps[OF g]
  note st = gutsOfConstructor_stages[OF g]
  note ml = maps_wf_lengths[OF mp(1)]
  have a: "getDenseRow_spec core ((nodes core ! t)\<lparr>dRowMap := d\<rparr>)
             (rowbeg (nodes core ! t) + k)"
    if k: "k < nd_nrow (nodes core ! t)" for k d
  proof (cases "has_matrix (nodes core ! t)")
    case False
    then have "getRow ((nodes core ! t)\<lparr>dRowMap := d\<rparr>) (rowbeg (nodes core ! t) + k) = Inr []"
      by (simp add: getRow_def)
    then show ?thesis by (rule getDenseRow_spec_I) simp
  next
    case True
    let ?rows = "node_rows core t (Some m)"
    have ok: "core_node_ok core m dclo0 dcup0 dobj0 drlo0 drup0 t (nodes core ! t)"
      using st(7) t by (simp add: core_stage_ok_def)
    then have lay: "node_layout (nodes core ! t) (map sortIncrIndex ?rows)
       (stage_entries (colStage core) (colEx2In core) t dclo0)
       (stage_entries (colStage core) (colEx2In core) t dcup0)
       (stage_entries (colStage core) (colEx2In core) t dobj0)
       (stage_entries (rowStage core) (rowEx2In core) t drlo0)
       (stage_entries (rowStage core) (rowEx2In core) t drup0)"
      and len: "length ?rows = nd_nrow (nodes core ! t)"
      and rng: "\<forall>k<length ?rows. \<forall>q\<in>set (m ! (rowIn2Ex core ! (stageRowPtr core ! t + k))).
                  fst q < ncol core"
      using True by (simp_all add: core_node_ok_def)
    have kk: "k < length ?rows" using k len by simp
    have r: "getRow ((nodes core ! t)\<lparr>dRowMap := d\<rparr>) (rowbeg (nodes core ! t) + k)
             = Inr (sortIncrIndex (?rows ! k))"
      using node_layout_row(1)[OF lay True, of k] kk by simp
    have "\<forall>p\<in>set (?rows ! k). fst p < ncol core"
      by (rule node_rows_range[OF mp(1) kk]) (use rng kk in \<open>simp add: opt_entries_def\<close>)
    then have "\<forall>p\<in>set (sortIncrIndex (?rows ! k)). fst p < ncol core"
      by (simp add: sortIncrIndex_def)
    with r show ?thesis by (rule getDenseRow_spec_I)
  qed
  have b: "getDenseRow_spec core (node\<lparr>dRowMap := d\<rparr>) (rowbeg node + k)"
    if n: "SmiNodeData_ctor t core matrix dclo dcup dobj drlo drup = Inr node"
      and k: "k < nd_nrow node"
    for matrix dclo dcup dobj drlo drup node k d
  proof (cases "has_matrix node")
    case False
    then have "getRow (node\<lparr>dRowMap := d\<rparr>) (rowbeg node + k) = Inr []"
      by (simp add: getRow_def)
    then show ?thesis by (rule getDenseRow_spec_I) simp
  next
    case True
    note c = SmiNodeData_ctor_Inr[OF n]
    let ?rows = "node_rows core t matrix"
    have kk: "k < length ?rows" using k c(13) True by simp
    have r: "getRow (node\<lparr>dRowMap := d\<rparr>) (rowbeg node + k) = Inr (?rows ! k)"
      using node_layout_row(1)[OF c(1) True kk] by simp
    have "\<forall>p\<in>set (?rows ! k). fst p < ncol core"
      by (rule node_rows_range[OF mp(1) kk]) (use c(19) kk ml in simp)
    with r show ?thesis by (rule getDenseRow_spec_I)
  qed
  show ?thesis using a b by blast
qed

theorem getDenseRow_correct_witness:
  "\<not> isl ex_guts \<and> \<not> isl ex_node
   \<and> getDenseRow_spec (projr ex_guts) ((projr ex_node)\<lparr>dRowMap := [(1, [9, 9, 9])]\<rparr>)
         (rowbeg (projr ex_node) + 0)
   \<and> getDenseRow (projr ex_guts) ((projr ex_node)\<lparr>dRowMap := [(1, [9, 9, 9])]\<rparr>) 1
       = Inr ([5, 4, 0], (projr ex_node)\<lparr>dRowMap := [(1, [5, 4, 0])]\<rparr>)
   \<and> getDenseRow (projr ex_guts) (projr ex_node) 1
       = Inr ([5, 4, 0], (projr ex_node)\<lparr>dRowMap := [(1, [5, 4, 0])]\<rparr>)
   \<and> getDenseRow (projr ex_guts) ((projr ex_node)\<lparr>dRowMap := [(1, [5, 4, 0])]\<rparr>) 1
       = Inr ([5, 4, 0], (projr ex_node)\<lparr>dRowMap := [(1, [5, 4, 0])]\<rparr>)"
proof -
  have t: "(1::nat) < 2" by simp
  have k: "0 < nd_nrow (projr ex_node)" by (simp add: ex_node_fields)
  from getDenseRow_correct[OF ex_guts_Inr t] ex_node_Inr k
  have "getDenseRow_spec (projr ex_guts) ((projr ex_node)\<lparr>dRowMap := [(1, [9, 9, 9])]\<rparr>)
          (rowbeg (projr ex_node) + 0)"
    by blast
  then show ?thesis using ex_guts_ok ex_node_ok ex_node_dense ex_node_stale by simp
qed

section \<open>The order of the entries of a row\<close>

text \<open>
  Claim C7 as stated: every constructed node stores the column indices of each of its
  matrix rows in strictly ascending internal order. The constructor of \<open>SmiNodeData\<close>
  copies a row in the order of the input and then translates the indices; it does not
  sort. Row 0 of the example node has the external columns 0 and 1, which are the internal
  columns 1 and 0.
\<close>

theorem node_rows_unsorted_counterexample:
  "\<not> isl ex_node
   \<and> getRow (projr ex_node) (rowbeg (projr ex_node) + 0) = Inr [(1, 4), (0, 5)]
   \<and> \<not> sorted_wrt (<) (map fst (projr (getRow (projr ex_node) (rowbeg (projr ex_node) + 0))))"
  using ex_node_ok ex_node_dense(3) by (simp add: ex_node_fields)

text \<open>
  Claim C7, amended. The rows are sorted by \<open>gutsOfConstructor\<close>, for the core nodes:
  for every core node of a constructed core, each stored row holds the entries of the
  input row with internal column indices, in ascending order of the index, strictly
  ascending when the input row names no column twice.
\<close>

theorem core_node_rows_sorted:
  assumes g: "gutsOfConstructor nrow' ncol' nstag' cstag rstag m dclo dcup dobj drlo drup
                ints bins = Inr core"
    and t: "t < nstag'"
  shows "\<forall>k<nd_nrow (nodes core ! t). \<exists>row.
           getRow (nodes core ! t) (rowbeg (nodes core ! t) + k) = Inr row
           \<and> sorted (map fst row)
           \<and> (has_matrix (nodes core ! t) \<longrightarrow>
                mset row = mset (map (\<lambda>p. (colEx2In core ! fst p, snd p))
                                 (m ! (rowIn2Ex core ! (stageRowPtr core ! t + k))))
                \<and> (distinct (map fst (m ! (rowIn2Ex core ! (stageRowPtr core ! t + k))))
                     \<longrightarrow> sorted_wrt (<) (map fst row)))"
proof (intro allI impI)
  fix k assume k: "k < nd_nrow (nodes core ! t)"
  note mp = gutsOfConstructor_maps[OF g]
  note st = gutsOfConstructor_stages[OF g]
  let ?nd = "nodes core ! t"
  let ?src = "m ! (rowIn2Ex core ! (stageRowPtr core ! t + k))"
  let ?g = "\<lambda>p. (colEx2In core ! fst p, snd p)"
  show "\<exists>row. getRow ?nd (rowbeg ?nd + k) = Inr row \<and> sorted (map fst row)
           \<and> (has_matrix ?nd \<longrightarrow> mset row = mset (map ?g ?src)
                \<and> (distinct (map fst ?src) \<longrightarrow> sorted_wrt (<) (map fst row)))"
  proof (cases "has_matrix ?nd")
    case False
    then have "getRow ?nd (rowbeg ?nd + k) = Inr []" by (simp add: getRow_def)
    then show ?thesis using False by simp
  next
    case True
    let ?rows = "node_rows core t (Some m)"
    have ok: "core_node_ok core m dclo dcup dobj drlo drup t ?nd"
      using st(7) t by (simp add: core_stage_ok_def)
    then have lay: "node_layout ?nd (map sortIncrIndex ?rows)
       (stage_entries (colStage core) (colEx2In core) t dclo)
       (stage_entries (colStage core) (colEx2In core) t dcup)
       (stage_entries (colStage core) (colEx2In core) t dobj)
       (stage_entries (rowStage core) (rowEx2In core) t drlo)
       (stage_entries (rowStage core) (rowEx2In core) t drup)"
      and len: "length ?rows = nd_nrow ?nd"
      and rng: "\<forall>k<length ?rows. \<forall>q\<in>set (m ! (rowIn2Ex core ! (stageRowPtr core ! t + k))).
                  fst q < ncol core"
      using True by (simp_all add: core_node_ok_def)
    have kk: "k < length ?rows" using k len by simp
    have rk: "?rows ! k = map ?g ?src" using node_rows_nth[OF kk] by (simp add: opt_entries_def)
    have r: "getRow ?nd (rowbeg ?nd + k) = Inr (sortIncrIndex (map ?g ?src))"
      using node_layout_row(1)[OF lay True, of k] kk rk by simp
    have ms: "mset (sortIncrIndex (map ?g ?src)) = mset (map ?g ?src)"
      by (simp add: sortIncrIndex_def)
    have b: "\<forall>q\<in>set ?src. fst q < ncol core" using rng kk by simp
    have st: "sorted_wrt (<) (map fst (sortIncrIndex (map ?g ?src)))" if "distinct (map fst ?src)"
      unfolding strict_sorted_iff
      using sorted_sortIncrIndex distinct_sortIncrIndex distinct_translated[OF mp(1) that b]
      by blast
    show ?thesis using r ms st sorted_sortIncrIndex True by blast
  qed
qed

theorem core_node_rows_sorted_witness:
  "\<not> isl ex_guts
   \<and> getRow (nodes (projr ex_guts) ! 1) (rowbeg (nodes (projr ex_guts) ! 1) + 0)
       = Inr [(0, 2), (1, 5), (2, 7)]
   \<and> sorted (map fst (projr (getRow (nodes (projr ex_guts) ! 1)
                               (rowbeg (nodes (projr ex_guts) ! 1) + 0))))"
proof -
  have t: "(1::nat) < 2" by simp
  have k: "0 < nd_nrow (nodes (projr ex_guts) ! 1)" unfolding ex_guts_row(2) by simp
  from core_node_rows_sorted[OF ex_guts_Inr t] k
  obtain row where "getRow (nodes (projr ex_guts) ! 1) (rowbeg (nodes (projr ex_guts) ! 1) + 0) = Inr row"
    "sorted (map fst row)" by blast
  then show ?thesis using ex_guts_ok ex_guts_row by simp
qed

section \<open>Validation at construction\<close>




section \<open>Cross-stage quadratic terms\<close>




end
